theory Spec2Isabelle
  imports Main
begin

section \<open>Users and tasks: the route handlers of routes/users.js and routes/tasks.js\<close>

text \<open>
  The two route files keep \<open>Task.assignedUser\<close> and \<open>User.pendingTasks\<close> in step.
  The handlers are embedded as functions from the store to a response and the new
  store; every \<open>await\<close> is one step of the sequence, in the order of the source.
\<close>

subsection \<open>Request values\<close>

text \<open>
  A value of a parsed JSON body or query. A number is carried as the text that
  \<open>String()\<close> gives for it, which is all the handlers ever ask of a number
  (they convert with \<open>String\<close> and test truthiness). An object is the list of its
  own keys with their values.
\<close>

datatype json =
    JNull
  | JBool bool
  | JNum string
  | JStr string
  | JArr "json list"
  | JObj "(string \<times> json) list"

fun join_comma :: "string list \<Rightarrow> string" where
  "join_comma [] = []"
| "join_comma [x] = x"
| "join_comma (x # y # zs) = x @ '','' @ join_comma (y # zs)"

text \<open>
  \<open>String(v)\<close>, with \<open>None\<close> where it throws a TypeError. An array joins the
  texts of its elements with commas, \<open>null\<close> elements as the empty text. An
  object is \<open>[object Object]\<close> by the inherited \<open>toString\<close>; an object with an own
  key \<open>toString\<close> hides the inherited method behind a value that cannot be
  called, and the inherited \<open>valueOf\<close> (or an own key of that name) gives no
  primitive either: the conversion throws, also for an element of an array.
\<close>

fun js_String :: "json \<Rightarrow> string option" where
  "js_String JNull = Some ''null''"
| "js_String (JBool b) = Some (if b then ''true'' else ''false'')"
| "js_String (JNum n) = Some n"
| "js_String (JStr s) = Some s"
| "js_String (JArr xs) =
     map_option join_comma (those (map (\<lambda>x. if x = JNull then Some [] else js_String x) xs))"
| "js_String (JObj kvs) =
     (if ''toString'' \<in> set (map fst kvs) then None else Some ''[object Object]'')"

text \<open>Truthiness of a value that is present (\<open>undefined\<close> is the absent field).\<close>

fun truthy :: "json \<Rightarrow> bool" where
  "truthy JNull = False"
| "truthy (JBool b) = b"
| "truthy (JNum n) = (n \<noteq> ''0'' \<and> n \<noteq> ''NaN'')"
| "truthy (JStr s) = (s \<noteq> [])"
| "truthy (JArr xs) = True"
| "truthy (JObj kvs) = True"

definition truthy_opt :: "json option \<Rightarrow> bool" where
  "truthy_opt v = (case v of None \<Rightarrow> False | Some j \<Rightarrow> truthy j)"

text \<open>A text field of a body: absent, or a string; the empty string is falsy.\<close>

definition given :: "string option \<Rightarrow> bool" where
  "given v = (case v of None \<Rightarrow> False | Some s \<Rightarrow> s \<noteq> [])"

definition or_else :: "string option \<Rightarrow> string \<Rightarrow> string" where
  "or_else v d = (case v of None \<Rightarrow> d | Some s \<Rightarrow> if s = [] then d else s)"

text \<open>\<open>toLowerCase\<close>, on the letters that matter for a comparison with an ASCII word.\<close>

definition lower_char :: "char \<Rightarrow> char" where
  "lower_char c =
     (case map_of (zip ''ABCDEFGHIJKLMNOPQRSTUVWXYZ'' ''abcdefghijklmnopqrstuvwxyz'') c of
        None \<Rightarrow> c
      | Some d \<Rightarrow> d)"

definition toLowerCase :: "string \<Rightarrow> string" where
  "toLowerCase s = map lower_char s"

text \<open>\<open>Array.from(new Set(xs))\<close>: a Set keeps insertion order and ignores a value it
  already holds.\<close>

fun set_add_all :: "'a list \<Rightarrow> 'a list \<Rightarrow> 'a list" where
  "set_add_all seen [] = seen"
| "set_add_all seen (x # xs) = set_add_all (if x \<in> set seen then seen else seen @ [x]) xs"

definition array_from_set :: "'a list \<Rightarrow> 'a list" where
  "array_from_set xs = set_add_all [] xs"

text \<open>The spec's words for the same list: de-duplicated, in first-occurrence order.\<close>

function dedup_first_occurrence :: "'a list \<Rightarrow> 'a list" where
  "dedup_first_occurrence [] = []"
| "dedup_first_occurrence (x # xs) = x # dedup_first_occurrence (removeAll x xs)"
  by pat_completeness auto
termination
  by (relation "measure length") (auto simp: less_Suc_eq_le)

text \<open>\<open>arr[i]\<close> is \<open>undefined\<close> past the end, and \<open>String(undefined)\<close> is
  \<open>undefined\<close>.\<close>

definition String_at :: "string list \<Rightarrow> nat \<Rightarrow> string" where
  "String_at xs i = (if i < length xs then xs ! i else ''undefined'')"

text \<open>\<open>xs.every((v, i) => p(v, i))\<close>, the index counted from \<open>i\<close>.\<close>

fun every_indexed :: "('a \<Rightarrow> nat \<Rightarrow> bool) \<Rightarrow> nat \<Rightarrow> 'a list \<Rightarrow> bool" where
  "every_indexed p i [] = True"
| "every_indexed p i (v # vs) = (p v i \<and> every_indexed p (Suc i) vs)"

subsection \<open>Documents and the store\<close>

text \<open>
  Modelled from the spec: the schemas of models/user.js and models/task.js are not
  among the sources. Section 3 of the spec gives the fields: ids are strings the
  store generates, \<open>pendingTasks\<close> is a sequence of task-id strings, \<open>assignedUser\<close>
  is a user id or the empty string.
\<close>

record user =
  u_id :: string
  u_name :: string
  email :: string
  pendingTasks :: "string list"

record task =
  t_id :: string
  t_name :: string
  description :: string
  deadline :: string
  completed :: bool
  assignedUser :: string
  assignedUserName :: string

text \<open>Every write command the handlers send to the store, in order.\<close>

datatype store_write =
    UserSave string
  | UserUpdateOne string
  | UserDeleteOne string
  | TaskSave string
  | TaskUpdateMany
  | TaskDeleteOne string

record db =
  users :: "user list"
  tasks :: "task list"
  writes :: "store_write list"

datatype store_error = DuplicateKey | StoreFailure

fun update_first :: "('a \<Rightarrow> bool) \<Rightarrow> ('a \<Rightarrow> 'a) \<Rightarrow> 'a list \<Rightarrow> 'a list" where
  "update_first p f [] = []"
| "update_first p f (x # xs) = (if p x then f x # xs else x # update_first p f xs)"

fun delete_first :: "('a \<Rightarrow> bool) \<Rightarrow> 'a list \<Rightarrow> 'a list" where
  "delete_first p [] = []"
| "delete_first p (x # xs) = (if p x then xs else x # delete_first p xs)"

text \<open>
  Modelled from the spec: the RecordStore primitives (mongoose over the collection;
  not among the sources). A collection is the list of its documents in insertion
  order; \<open>findById\<close>, \<open>updateOne\<close> and \<open>deleteOne\<close> act on the first document that
  matches, \<open>find\<close> and \<open>updateMany\<close> on all of them.
\<close>

definition User_findById :: "string \<Rightarrow> db \<Rightarrow> user option" where
  "User_findById i s = find (\<lambda>u. u_id u = i) (users s)"

definition Task_findById :: "string \<Rightarrow> db \<Rightarrow> task option" where
  "Task_findById i s = find (\<lambda>t. t_id t = i) (tasks s)"

definition Task_find_in :: "string list \<Rightarrow> db \<Rightarrow> task list" where
  "Task_find_in ids s = filter (\<lambda>t. t_id t \<in> set ids) (tasks s)"

definition User_updateOne :: "string \<Rightarrow> (user \<Rightarrow> user) \<Rightarrow> db \<Rightarrow> db" where
  "User_updateOne i f s =
     s\<lparr>users := update_first (\<lambda>u. u_id u = i) f (users s),
       writes := writes s @ [UserUpdateOne i]\<rparr>"

text \<open>The update operators on \<open>pendingTasks\<close>: \<open>$set\<close>, \<open>$pull\<close> (every occurrence
  goes) and \<open>$addToSet\<close> (added at the end unless present).\<close>

definition set_pendingTasks :: "string list \<Rightarrow> user \<Rightarrow> user" where
  "set_pendingTasks xs u = u\<lparr>pendingTasks := xs\<rparr>"

definition pull_pendingTasks :: "string \<Rightarrow> user \<Rightarrow> user" where
  "pull_pendingTasks x u = u\<lparr>pendingTasks := removeAll x (pendingTasks u)\<rparr>"

definition addToSet_pendingTasks :: "string \<Rightarrow> user \<Rightarrow> user" where
  "addToSet_pendingTasks x u =
     u\<lparr>pendingTasks := (if x \<in> set (pendingTasks u) then pendingTasks u
                         else pendingTasks u @ [x])\<rparr>"

definition Task_updateMany :: "(task \<Rightarrow> bool) \<Rightarrow> (task \<Rightarrow> task) \<Rightarrow> db \<Rightarrow> db" where
  "Task_updateMany p f s =
     s\<lparr>tasks := map (\<lambda>t. if p t then f t else t) (tasks s),
       writes := writes s @ [TaskUpdateMany]\<rparr>"

definition User_deleteOne :: "string \<Rightarrow> db \<Rightarrow> db" where
  "User_deleteOne i s =
     s\<lparr>users := delete_first (\<lambda>u. u_id u = i) (users s),
       writes := writes s @ [UserDeleteOne i]\<rparr>"

definition Task_deleteOne :: "string \<Rightarrow> db \<Rightarrow> db" where
  "Task_deleteOne i s =
     s\<lparr>tasks := delete_first (\<lambda>t. t_id t = i) (tasks s),
       writes := writes s @ [TaskDeleteOne i]\<rparr>"

text \<open>
  Modelled from the spec: \<open>save\<close> of a new document and of a changed one. The store
  keeps ids unique and emails unique across users (section 3), and answers a
  clash with its duplicate-key error (code 11000).
\<close>

definition User_insert :: "user \<Rightarrow> db \<Rightarrow> store_error + db" where
  "User_insert doc s =
     (if \<exists>u \<in> set (users s). u_id u = u_id doc \<or> email u = email doc
      then Inl DuplicateKey
      else Inr (s\<lparr>users := users s @ [doc], writes := writes s @ [UserSave (u_id doc)]\<rparr>))"

definition User_save :: "user \<Rightarrow> db \<Rightarrow> store_error + db" where
  "User_save doc s =
     (if \<exists>u \<in> set (users s). u_id u \<noteq> u_id doc \<and> email u = email doc
      then Inl DuplicateKey
      else Inr (s\<lparr>users := update_first (\<lambda>u. u_id u = u_id doc) (\<lambda>u. doc) (users s),
                  writes := writes s @ [UserSave (u_id doc)]\<rparr>))"

definition Task_insert :: "task \<Rightarrow> db \<Rightarrow> store_error + db" where
  "Task_insert doc s =
     (if \<exists>t \<in> set (tasks s). t_id t = t_id doc
      then Inl DuplicateKey
      else Inr (s\<lparr>tasks := tasks s @ [doc], writes := writes s @ [TaskSave (t_id doc)]\<rparr>))"

definition Task_save :: "task \<Rightarrow> db \<Rightarrow> db" where
  "Task_save doc s =
     s\<lparr>tasks := update_first (\<lambda>t. t_id t = t_id doc) (\<lambda>t. doc) (tasks s),
       writes := writes s @ [TaskSave (t_id doc)]\<rparr>"

subsection \<open>Responses\<close>

datatype js_error = TypeError

datatype payload =
    Empty
  | UserDoc "user option"
  | TaskDoc task
  | Missing "string list"
  | Count nat
  | Docs json
  | Failure store_error
  | Thrown js_error

datatype response =
    Response nat string payload
  | End nat

definition sendResponse :: "nat \<Rightarrow> string \<Rightarrow> payload \<Rightarrow> response" where
  "sendResponse status message data = Response status message data"

subsection \<open>The helpers both route files define\<close>

definition normalizePendingTasksForUser :: "string \<Rightarrow> db \<Rightarrow> db" where
  "normalizePendingTasksForUser userId s =
     (case User_findById userId s of
        None \<Rightarrow> s
      | Some u \<Rightarrow>
          let normalized = array_from_set (pendingTasks u);
              same = (length normalized = length (pendingTasks u) \<and>
                      every_indexed (\<lambda>v i. v = String_at (pendingTasks u) i) 0 normalized)
          in if \<not> same then User_updateOne userId (set_pendingTasks normalized) s else s)"

text \<open>\<open>JSON.parse\<close> is the engine's: a parameter, \<open>None\<close> where it throws. The result
  of \<open>parseJSONParam\<close> is \<open>None\<close> for \<open>undefined\<close>.\<close>

definition parse_error_marker :: json where
  "parse_error_marker = JObj [(''__parseError'', JBool True)]"

definition parseJSONParam :: "(string \<Rightarrow> json option) \<Rightarrow> string option \<Rightarrow> json option" where
  "parseJSONParam JSON_parse param =
     (if \<not> given param then None
      else (case JSON_parse (the param) of
              Some v \<Rightarrow> Some v
            | None \<Rightarrow> Some parse_error_marker))"

text \<open>\<open>v?.__parseError\<close>, as a condition.\<close>

definition has_parseError :: "json option \<Rightarrow> bool" where
  "has_parseError v =
     (case v of
        Some (JObj kvs) \<Rightarrow> truthy_opt (map_of kvs ''__parseError'')
      | _ \<Rightarrow> False)"

definition emailContainsAt :: "string \<Rightarrow> bool" where
  "emailContainsAt e = (CHR ''@'' \<in> set e)"

subsection \<open>Request bodies\<close>

text \<open>
  \<open>req.body || {}\<close>: a missing body is the one with every field absent. The
  fields the schema stores as text are text here; the fields the handlers
  inspect by shape (\<open>Array.isArray\<close>, \<open>=== true\<close>, \<open>hasOwnProperty\<close>) are JSON
  values.
\<close>

record user_body =
  ub_name :: "string option"
  ub_email :: "string option"
  ub_pendingTasks :: "json option"

record task_body =
  tb_name :: "string option"
  tb_description :: "string option"
  tb_deadline :: "string option"
  tb_completed :: "json option"
  tb_assignedUser :: "string option"
  tb_assignedUserName :: "string option"

text \<open>\<open>body.completed === 'true' || body.completed === true\<close>\<close>

definition completed_flag :: "json option \<Rightarrow> bool" where
  "completed_flag c = (c = Some (JStr ''true'') \<or> c = Some (JBool True))"

text \<open>\<open>body.pendingTasks && body.pendingTasks.length\<close>, as a condition.\<close>

definition has_length :: "json option \<Rightarrow> bool" where
  "has_length v =
     (case v of
        Some (JArr xs) \<Rightarrow> xs \<noteq> []
      | Some (JStr x) \<Rightarrow> x \<noteq> []
      | Some (JObj kvs) \<Rightarrow> truthy_opt (map_of kvs ''length'')
      | _ \<Rightarrow> False)"

text \<open>\<open>Array.isArray(body.pendingTasks) ? Array.from(new Set(body.pendingTasks.map(String))) : []\<close>,
  with \<open>None\<close> where \<open>String\<close> throws on an element.\<close>

definition requested_pending :: "json option \<Rightarrow> string list option" where
  "requested_pending v =
     (case v of
        Some (JArr xs) \<Rightarrow> map_option array_from_set (those (map js_String xs))
      | _ \<Rightarrow> Some [])"

definition unassign :: "task \<Rightarrow> task" where
  "unassign t = t\<lparr>assignedUser := [], assignedUserName := ''unassigned''\<rparr>"

definition save_failed :: "string \<Rightarrow> store_error \<Rightarrow> response" where
  "save_failed what err =
     (if err = DuplicateKey
      then sendResponse 400 ''A user with that email already exists'' Empty
      else sendResponse 500 what (Failure err))"

subsection \<open>routes/users.js\<close>

text \<open>POST /users: the \<open>try\<close> block, then the handler. The id of the new document
  is the one the store library generates for it: a parameter.\<close>

definition users_post_save :: "user \<Rightarrow> db \<Rightarrow> response \<times> db" where
  "users_post_save newUser s =
     (case User_insert newUser s of
        Inl err \<Rightarrow> (save_failed ''Error creating user'' err, s)
      | Inr s1 \<Rightarrow>
          (sendResponse 201 ''User created''
             (UserDoc (User_findById (u_id newUser)
                         (normalizePendingTasksForUser (u_id newUser) s1))),
           normalizePendingTasksForUser (u_id newUser) s1))"

definition users_post :: "string \<Rightarrow> user_body \<Rightarrow> db \<Rightarrow> response \<times> db" where
  "users_post new_id body s =
     (if \<not> given (ub_name body) \<or> \<not> given (ub_email body)
      then (sendResponse 400 ''User must have a name and an email'' Empty, s)
      else if \<not> emailContainsAt (the (ub_email body))
      then (sendResponse 400 ''Invalid email format'' Empty, s)
      else if has_length (ub_pendingTasks body)
      then (sendResponse 400 ''Cannot set pendingTasks when creating a new user'' Empty, s)
      else users_post_save
             \<lparr>u_id = new_id, u_name = the (ub_name body),
               email = the (ub_email body), pendingTasks = []\<rparr> s)"

text \<open>The loop of PUT /users/:id over the re-fetched tasks: a task that another
  user holds is pulled from that user's list, and that user is normalized.\<close>

fun release_from_previous :: "string \<Rightarrow> task list \<Rightarrow> db \<Rightarrow> db" where
  "release_from_previous uid [] s = s"
| "release_from_previous uid (t # ts) s =
     (let prev = assignedUser t
      in if completed t \<or> prev = [] \<or> prev = uid
         then release_from_previous uid ts s
         else release_from_previous uid ts
                (normalizePendingTasksForUser prev
                   (User_updateOne prev (pull_pendingTasks (t_id t)) s)))"

text \<open>The block of PUT /users/:id under \<open>if (user.pendingTasks.length)\<close>, after the
  save.\<close>

definition assign_pending :: "user \<Rightarrow> db \<Rightarrow> db" where
  "assign_pending user s =
     (let found = Task_find_in (pendingTasks user) s;
          incomplete = map t_id (filter (\<lambda>t. \<not> completed t) found);
          s1 = release_from_previous (u_id user) found s
      in if incomplete \<noteq> []
         then User_updateOne (u_id user) (set_pendingTasks incomplete)
                (Task_updateMany (\<lambda>t. t_id t \<in> set incomplete)
                   (\<lambda>t. t\<lparr>assignedUser := u_id user, assignedUserName := u_name user\<rparr>) s1)
         else User_updateOne (u_id user) (set_pendingTasks []) s1)"

text \<open>PUT /users/:id, from the save on.\<close>

definition users_put_cascade :: "string list \<Rightarrow> user \<Rightarrow> db \<Rightarrow> response \<times> db" where
  "users_put_cascade prevPending user s1 =
     (let s2 = (if pendingTasks user \<noteq> [] then assign_pending user s1 else s1);
          removed = filter (\<lambda>t. t \<notin> set (pendingTasks user)) prevPending;
          s3 = (if removed \<noteq> []
                then Task_updateMany (\<lambda>t. t_id t \<in> set removed \<and> \<not> completed t) unassign s2
                else s2);
          s4 = Task_updateMany (\<lambda>t. assignedUser t = u_id user)
                 (\<lambda>t. t\<lparr>assignedUserName := u_name user\<rparr>) s3;
          s5 = normalizePendingTasksForUser (u_id user) s4
      in (sendResponse 200 ''User updated'' (UserDoc (User_findById (u_id user) s5)), s5))"

text \<open>PUT /users/:id: the block under \<open>if (user.pendingTasks.length > 0)\<close> before
  the save. It gives the response that ends the request, if any.\<close>

definition users_put_check :: "user \<Rightarrow> db \<Rightarrow> response option" where
  "users_put_check user s =
     (if pendingTasks user \<noteq> []
      then
        let found = Task_find_in (pendingTasks user) s;
            foundIds = map t_id found;
            missing = filter (\<lambda>tid. tid \<notin> set foundIds) (pendingTasks user)
        in if missing \<noteq> []
           then Some (sendResponse 404 ''One or more tasks not found'' (Missing missing))
           else if list_ex completed found
           then Some (sendResponse 400 ''Cannot assign completed tasks as pending'' Empty)
           else None
      else None)"

text \<open>PUT /users/:id: the save, its \<open>catch\<close>, and what follows the save. In the
  handler the same \<open>catch\<close> answers a TypeError of the conversion of
  \<open>body.pendingTasks\<close> with 500: the conversion is inside the \<open>try\<close>, after the
  user has been found.\<close>

definition users_put_save :: "string list \<Rightarrow> user \<Rightarrow> db \<Rightarrow> response \<times> db" where
  "users_put_save prevPending user s =
     (case User_save user s of
        Inl err \<Rightarrow> (save_failed ''Error updating user'' err, s)
      | Inr s1 \<Rightarrow> users_put_cascade prevPending user s1)"

definition users_id_put :: "string \<Rightarrow> user_body \<Rightarrow> db \<Rightarrow> response \<times> db" where
  "users_id_put rid body s =
     (if \<not> given (ub_name body) \<or> \<not> given (ub_email body)
      then (sendResponse 400 ''User must have a name and an email'' Empty, s)
      else if \<not> emailContainsAt (the (ub_email body))
      then (sendResponse 400 ''Invalid email format'' Empty, s)
      else
        (case User_findById rid s of
           None \<Rightarrow> (sendResponse 404 ''User not found'' Empty, s)
         | Some stored \<Rightarrow>
             (case requested_pending (ub_pendingTasks body) of
                None \<Rightarrow> (sendResponse 500 ''Error updating user'' (Thrown TypeError), s)
              | Some requested \<Rightarrow>
                  let prevPending = pendingTasks stored;
                      user = stored\<lparr>u_name := the (ub_name body), email := the (ub_email body),
                               pendingTasks := requested\<rparr>
                  in (case users_put_check user s of
                        Some r \<Rightarrow> (r, s)
                      | None \<Rightarrow> users_put_save prevPending user s))))"

text \<open>DELETE /users/:id\<close>

definition users_id_delete :: "string \<Rightarrow> db \<Rightarrow> response \<times> db" where
  "users_id_delete rid s =
     (case User_findById rid s of
        None \<Rightarrow> (sendResponse 404 ''User not found'' Empty, s)
      | Some user \<Rightarrow>
          let s1 = (if pendingTasks user \<noteq> []
                    then Task_updateMany (\<lambda>t. t_id t \<in> set (pendingTasks user)) unassign s
                    else s);
              s2 = User_deleteOne rid s1
          in (End 204, s2))"

subsection \<open>routes/tasks.js\<close>

text \<open>POST /tasks: the block under \<open>if (body.assignedUser)\<close>. It gives either the
  response that ends the request or the \<open>assignedUserName\<close> the body holds
  afterwards.\<close>

definition tasks_post_check :: "task_body \<Rightarrow> db \<Rightarrow> response + string option" where
  "tasks_post_check body s =
     (if given (tb_assignedUser body)
      then (case User_findById (the (tb_assignedUser body)) s of
              None \<Rightarrow>
                Inl (sendResponse 404 ''Assigned user not found''
                       (Missing [the (tb_assignedUser body)]))
            | Some assignedUserDoc \<Rightarrow>
                if tb_assignedUserName body \<noteq> None \<and>
                   the (tb_assignedUserName body) \<noteq> u_name assignedUserDoc
                then Inl (sendResponse 400 ''assignedUserName does not match user record'' Empty)
                else Inr (Some (u_name assignedUserDoc)))
      else Inr (tb_assignedUserName body))"

text \<open>POST /tasks: the \<open>try\<close> block.\<close>

definition tasks_post_save :: "task \<Rightarrow> db \<Rightarrow> response \<times> db" where
  "tasks_post_save newTask s =
     (case Task_insert newTask s of
        Inl err \<Rightarrow> (sendResponse 500 ''Error creating task'' (Failure err), s)
      | Inr s1 \<Rightarrow>
          (sendResponse 201 ''Task created'' (TaskDoc newTask),
           if assignedUser newTask \<noteq> [] \<and> \<not> completed newTask
           then normalizePendingTasksForUser (assignedUser newTask)
                  (User_updateOne (assignedUser newTask)
                     (addToSet_pendingTasks (t_id newTask)) s1)
           else s1))"

text \<open>POST /tasks. The id of the new document is the one the store library
  generates for it: a parameter.\<close>

definition tasks_post :: "string \<Rightarrow> task_body \<Rightarrow> db \<Rightarrow> response \<times> db" where
  "tasks_post new_id body s =
     (if \<not> given (tb_name body) \<or> \<not> given (tb_deadline body)
      then (sendResponse 400 ''Task must have a name and a deadline'' Empty, s)
      else
        (case tasks_post_check body s of
           Inl r \<Rightarrow> (r, s)
         | Inr body_assignedUserName \<Rightarrow>
             tasks_post_save
               \<lparr>t_id = new_id, t_name = the (tb_name body),
                 description = or_else (tb_description body) [],
                 deadline = the (tb_deadline body),
                 completed = completed_flag (tb_completed body),
                 assignedUser = or_else (tb_assignedUser body) [],
                 assignedUserName = or_else body_assignedUserName ''unassigned''\<rparr> s))"

text \<open>PUT /tasks/:id, from the save on.\<close>

definition tasks_put_cascade :: "string \<Rightarrow> task \<Rightarrow> db \<Rightarrow> response \<times> db" where
  "tasks_put_cascade prevAssigned task s =
     (let s1 = Task_save task s;
          cur = assignedUser task;
          s2 = (if prevAssigned \<noteq> [] \<and> prevAssigned \<noteq> cur
                then normalizePendingTasksForUser prevAssigned
                       (User_updateOne prevAssigned (pull_pendingTasks (t_id task)) s1)
                else s1);
          s3 = (if assignedUser task \<noteq> []
                then normalizePendingTasksForUser (assignedUser task)
                       (User_updateOne (assignedUser task)
                          (if completed task then pull_pendingTasks (t_id task)
                           else addToSet_pendingTasks (t_id task)) s2)
                else s2)
      in (sendResponse 200 ''Task updated'' (TaskDoc task), s3))"

definition tasks_id_put :: "string \<Rightarrow> task_body \<Rightarrow> db \<Rightarrow> response \<times> db" where
  "tasks_id_put rid body s =
     (if \<not> given (tb_name body) \<or> \<not> given (tb_deadline body)
      then (sendResponse 400 ''Task must have a name and a deadline'' Empty, s)
      else
        (case Task_findById rid s of
           None \<Rightarrow> (sendResponse 404 ''Task not found'' Empty, s)
         | Some stored \<Rightarrow>
             if completed stored
             then (sendResponse 400 ''Cannot modify a completed task'' Empty, s)
             else
               let prevAssigned = assignedUser stored;
                   task = stored\<lparr>t_name := the (tb_name body),
                            description := or_else (tb_description body) [],
                            deadline := the (tb_deadline body),
                            completed := completed_flag (tb_completed body)\<rparr>
               in if given (tb_assignedUser body)
                  then (case User_findById (the (tb_assignedUser body)) s of
                          None \<Rightarrow>
                            (sendResponse 404 ''Assigned user not found''
                               (Missing [the (tb_assignedUser body)]), s)
                        | Some assignedUserDoc \<Rightarrow>
                            if tb_assignedUserName body \<noteq> None \<and>
                               toLowerCase (the (tb_assignedUserName body)) \<noteq> ''unassigned'' \<and>
                               the (tb_assignedUserName body) \<noteq> u_name assignedUserDoc
                            then (sendResponse 400
                                    ''assignedUserName does not match user record'' Empty, s)
                            else tasks_put_cascade prevAssigned
                                   (task\<lparr>assignedUser := the (tb_assignedUser body),
                                         assignedUserName := u_name assignedUserDoc\<rparr>) s)
                  else tasks_put_cascade prevAssigned
                         (task\<lparr>assignedUser := [], assignedUserName := ''unassigned''\<rparr>) s))"

text \<open>DELETE /tasks/:id\<close>

definition tasks_id_delete :: "string \<Rightarrow> db \<Rightarrow> response \<times> db" where
  "tasks_id_delete rid s =
     (case Task_findById rid s of
        None \<Rightarrow> (sendResponse 404 ''Task not found'' Empty, s)
      | Some task \<Rightarrow>
          let s1 = (if assignedUser task \<noteq> []
                    then normalizePendingTasksForUser (assignedUser task)
                           (User_updateOne (assignedUser task)
                              (pull_pendingTasks (t_id task)) s)
                    else s);
              s2 = Task_deleteOne rid s1
          in (End 204, s2))"

subsection \<open>The list endpoints\<close>

text \<open>
  GET /users and GET /tasks are the same handler over the two collections. The
  query engine (\<open>find\<close> with its options, \<open>countDocuments\<close>), \<open>JSON.parse\<close> and
  \<open>parseInt\<close> are not the repository's code: parameters. \<open>parseInt\<close> gives \<open>None\<close>
  for \<open>NaN\<close>.
\<close>

record query =
  q_where :: "string option"
  q_sort :: "string option"
  q_select :: "string option"
  q_skip :: "string option"
  q_limit :: "string option"
  q_count :: "string option"

record find_options =
  fo_filter :: json
  fo_select :: "json option"
  fo_sort :: "json option"
  fo_skip :: "int option"
  fo_limit :: "int option"

definition list_route ::
  "(string \<Rightarrow> json option) \<Rightarrow> (string \<Rightarrow> int option) \<Rightarrow>
   (find_options \<Rightarrow> 'd list \<Rightarrow> json) \<Rightarrow> (json \<Rightarrow> 'd list \<Rightarrow> nat) \<Rightarrow>
   query \<Rightarrow> 'd list \<Rightarrow> response" where
  "list_route JSON_parse parseInt run_find countDocuments q docs =
     (let where_v = parseJSONParam JSON_parse (q_where q) in
      if has_parseError where_v
      then sendResponse 400 ''Invalid JSON in where parameter'' Empty
      else
        let sort_v = parseJSONParam JSON_parse (q_sort q) in
        if has_parseError sort_v
        then sendResponse 400 ''Invalid JSON in sort parameter'' Empty
        else
          let select_v = parseJSONParam JSON_parse (q_select q) in
          if has_parseError select_v
          then sendResponse 400 ''Invalid JSON in select parameter'' Empty
          else
            let skip = (if given (q_skip q) then parseInt (the (q_skip q)) else None);
                limit = (if given (q_limit q) then parseInt (the (q_limit q)) else None);
                count = (q_count q = Some ''true'');
                filter_v = (if truthy_opt where_v then the where_v else JObj []);
                opts = \<lparr>fo_filter = filter_v,
                         fo_select = (if truthy_opt select_v then select_v else None),
                         fo_sort = (if truthy_opt sort_v then sort_v else None),
                         fo_skip = skip, fo_limit = limit\<rparr>
            in if count
               then sendResponse 200 ''OK'' (Count (countDocuments filter_v docs))
               else sendResponse 200 ''OK'' (Docs (run_find opts docs)))"

definition users_get ::
  "(string \<Rightarrow> json option) \<Rightarrow> (string \<Rightarrow> int option) \<Rightarrow>
   (find_options \<Rightarrow> user list \<Rightarrow> json) \<Rightarrow> (json \<Rightarrow> user list \<Rightarrow> nat) \<Rightarrow>
   query \<Rightarrow> db \<Rightarrow> response" where
  "users_get JSON_parse parseInt run_find countDocuments q s =
     list_route JSON_parse parseInt run_find countDocuments q (users s)"

definition tasks_get ::
  "(string \<Rightarrow> json option) \<Rightarrow> (string \<Rightarrow> int option) \<Rightarrow>
   (find_options \<Rightarrow> task list \<Rightarrow> json) \<Rightarrow> (json \<Rightarrow> task list \<Rightarrow> nat) \<Rightarrow>
   query \<Rightarrow> db \<Rightarrow> response" where
  "tasks_get JSON_parse parseInt run_find countDocuments q s =
     list_route JSON_parse parseInt run_find countDocuments q (tasks s)"

subsection \<open>Example stores\<close>

definition store_a :: db where
  "store_a =
     \<lparr>users = [\<lparr>u_id = ''u1'', u_name = ''Ann'', email = ''ann@x'',
                 pendingTasks = [''t1'', ''t2'', ''t1'']\<rparr>,
               \<lparr>u_id = ''u2'', u_name = ''Bob'', email = ''bob@x'', pendingTasks = [''t3'']\<rparr>],
      tasks = [], writes = []\<rparr>"

named_theorems store_simps

definition store_b :: db where
  "store_b =
     \<lparr>users = [\<lparr>u_id = ''u1'', u_name = ''Ann'', email = ''ann@x'', pendingTasks = [''t1'', ''t2'']\<rparr>,
               \<lparr>u_id = ''u2'', u_name = ''Bob'', email = ''bob@x'', pendingTasks = [''t3'']\<rparr>],
      tasks = [\<lparr>t_id = ''t1'', t_name = ''A'', description = [], deadline = ''d'',
                 completed = False, assignedUser = ''u1'', assignedUserName = ''Ann''\<rparr>,
               \<lparr>t_id = ''t2'', t_name = ''B'', description = [], deadline = ''d'',
                 completed = False, assignedUser = ''u1'', assignedUserName = ''Ann''\<rparr>,
               \<lparr>t_id = ''t3'', t_name = ''C'', description = [], deadline = ''d'',
                 completed = False, assignedUser = ''u2'', assignedUserName = ''Bob''\<rparr>,
               \<lparr>t_id = ''t4'', t_name = ''D'', description = [], deadline = ''d'',
                 completed = True, assignedUser = ''u1'', assignedUserName = ''Ann''\<rparr>,
               \<lparr>t_id = ''t5'', t_name = ''E'', description = [], deadline = ''d'',
                 completed = False, assignedUser = [], assignedUserName = ''unassigned''\<rparr>],
      writes = []\<rparr>"

definition body_new :: task_body where
  "body_new = \<lparr>tb_name = Some ''F'', tb_description = None, tb_deadline = Some ''d'',
                tb_completed = None, tb_assignedUser = Some ''u2'',
                tb_assignedUserName = None\<rparr>"

definition body_finish :: task_body where
  "body_finish = \<lparr>tb_name = Some ''F'', tb_description = None, tb_deadline = Some ''d'',
                   tb_completed = Some (JBool True), tb_assignedUser = Some ''u2'',
                   tb_assignedUserName = None\<rparr>"

definition body_upper :: task_body where
  "body_upper = \<lparr>tb_name = Some ''F'', tb_description = None, tb_deadline = Some ''d'',
                  tb_completed = None, tb_assignedUser = Some ''u2'',
                  tb_assignedUserName = Some ''UNASSIGNED''\<rparr>"

definition body_wrong_name :: task_body where
  "body_wrong_name = \<lparr>tb_name = Some ''F'', tb_description = None, tb_deadline = Some ''d'',
                       tb_completed = None, tb_assignedUser = Some ''u2'',
                       tb_assignedUserName = Some ''Ann''\<rparr>"

definition query_empty_where :: query where
  "query_empty_where = \<lparr>q_where = Some [], q_sort = None, q_select = None, q_skip = None,
                         q_limit = None, q_count = None\<rparr>"

definition query_bad_sort :: query where
  "query_bad_sort = \<lparr>q_where = Some ''{}'', q_sort = Some ''{oops'', q_select = Some ''{oops'',
                      q_skip = None, q_limit = None, q_count = None\<rparr>"

text \<open>A stand-in for \<open>JSON.parse\<close> on three texts: it decodes \<open>{}\<close> and throws on the
  other two, as \<open>JSON.parse\<close> does on the empty text and on \<open>{oops\<close>.\<close>

definition parse_braces_only :: "string \<Rightarrow> json option" where
  "parse_braces_only raw = (if raw = ''{}'' then Some (JObj []) else None)"

definition body_completed_and_missing :: user_body where
  "body_completed_and_missing =
     \<lparr>ub_name = Some ''Ann'', ub_email = Some ''ann@x'',
       ub_pendingTasks = Some (JArr [JStr ''t4'', JStr ''zz''])\<rparr>"

definition body_completed_and_open :: user_body where
  "body_completed_and_open =
     \<lparr>ub_name = Some ''Ann'', ub_email = Some ''ann@x'',
       ub_pendingTasks = Some (JArr [JStr ''t1'', JStr ''t4'', JStr ''t1''])\<rparr>"

definition body_take_three :: user_body where
  "body_take_three =
     \<lparr>ub_name = Some ''Ann'', ub_email = Some ''ann@x'',
       ub_pendingTasks = Some (JArr [JStr ''t3'', JStr ''t1'', JStr ''t3''])\<rparr>"

definition body_no_array :: user_body where
  "body_no_array =
     \<lparr>ub_name = Some ''Anna'', ub_email = Some ''ann@x'', ub_pendingTasks = Some (JStr ''t1'')\<rparr>"

text \<open>A list with an element that \<open>String\<close> cannot convert: an object with an own
  \<open>toString\<close> key that is not a function.\<close>

definition body_completed_and_unprintable :: user_body where
  "body_completed_and_unprintable =
     \<lparr>ub_name = Some ''Ann'', ub_email = Some ''ann@x'',
       ub_pendingTasks = Some (JArr [JStr ''t4'', JObj [(''toString'', JNum ''1'')]])\<rparr>"

text \<open>The second store after u1 has been saved with the list t1, t4, as the second
  \<open>Task.find\<close> of PUT /users/:id meets it when t4 has been completed in between.\<close>

definition user_d :: user where
  "user_d = \<lparr>u_id = ''u1'', u_name = ''Ann'', email = ''ann@x'', pendingTasks = [''t1'', ''t4'']\<rparr>"

definition store_d :: db where
  "store_d =
     store_b\<lparr>users := [user_d, \<lparr>u_id = ''u2'', u_name = ''Bob'', email = ''bob@x'',
                                   pendingTasks = [''t3'']\<rparr>]\<rparr>"

subsection \<open>The router, and the invariants of the pending lists\<close>

text \<open>One request to one of the six mutating routes; the ids of new documents
  are part of the request.\<close>

datatype request =
    PostUser string user_body
  | PutUser string user_body
  | DeleteUser string
  | PostTask string task_body
  | PutTask string task_body
  | DeleteTask string

fun handle :: "request \<Rightarrow> db \<Rightarrow> response \<times> db" where
  "handle (PostUser new_id body) s = users_post new_id body s"
| "handle (PutUser rid body) s = users_id_put rid body s"
| "handle (DeleteUser rid) s = users_id_delete rid s"
| "handle (PostTask new_id body) s = tasks_post new_id body s"
| "handle (PutTask rid body) s = tasks_id_put rid body s"
| "handle (DeleteTask rid) s = tasks_id_delete rid s"

text \<open>The store never generates the empty id for a user (the empty
  \<open>assignedUser\<close> means unassigned).\<close>

fun generated_id_ok :: "request \<Rightarrow> bool" where
  "generated_id_ok (PostUser new_id body) = (new_id \<noteq> [])"
| "generated_id_ok r = True"

text \<open>
  The two properties of the claim: a task that is assigned and not completed is
  held exactly once by its assignee; a task that is completed or unassigned is
  held by no user.
\<close>

definition pending_invariant :: "db \<Rightarrow> bool" where
  "pending_invariant s \<longleftrightarrow>
     (\<forall>t \<in> set (tasks s). assignedUser t \<noteq> [] \<and> \<not> completed t \<longrightarrow>
        (case User_findById (assignedUser t) s of
           None \<Rightarrow> False
         | Some u \<Rightarrow> count_list (pendingTasks u) (t_id t) = 1))
     \<and> (\<forall>t \<in> set (tasks s). completed t \<or> assignedUser t = [] \<longrightarrow>
          (\<forall>u \<in> set (users s). t_id t \<notin> set (pendingTasks u)))"

text \<open>
  The invariants as section 3 of the spec lists them: (1) and (2) above, (3) the
  denormalized name, (4) no duplicates, (5) an assignee that exists; with the
  uniqueness of ids that the data model states.
\<close>

definition spec_invariants :: "db \<Rightarrow> bool" where
  "spec_invariants s \<longleftrightarrow>
     distinct (map u_id (users s)) \<and> distinct (map t_id (tasks s))
     \<and> pending_invariant s
     \<and> (\<forall>t \<in> set (tasks s).
          if assignedUser t = [] then assignedUserName t = ''unassigned''
          else (case User_findById (assignedUser t) s of
                  None \<Rightarrow> False
                | Some u \<Rightarrow> assignedUserName t = u_name u))
     \<and> (\<forall>u \<in> set (users s). distinct (pendingTasks u))"

text \<open>
  The invariant the handlers keep: ids are unique, no user has the empty id,
  every pending list is free of duplicates and names only existing tasks that
  are not completed and are assigned to that user, and every task that is
  assigned and not completed is in the list of an existing assignee.
\<close>

definition consistent :: "db \<Rightarrow> bool" where
  "consistent s \<longleftrightarrow>
     distinct (map u_id (users s)) \<and> distinct (map t_id (tasks s))
     \<and> (\<forall>u \<in> set (users s).
          u_id u \<noteq> [] \<and> distinct (pendingTasks u)
          \<and> (\<forall>x \<in> set (pendingTasks u).
                \<exists>t \<in> set (tasks s). t_id t = x \<and> \<not> completed t \<and> assignedUser t = u_id u))
     \<and> (\<forall>t \<in> set (tasks s). assignedUser t \<noteq> [] \<and> \<not> completed t \<longrightarrow>
          (\<exists>u \<in> set (users s). u_id u = assignedUser t \<and> t_id t \<in> set (pendingTasks u)))"

text \<open>The same invariant on what \<open>findById\<close> shows of the store: the pending list
  of each user id, and the \<open>completed\<close> flag and assignee of each task id.\<close>

definition pending_of :: "db \<Rightarrow> string \<Rightarrow> string list option" where
  "pending_of s i = map_option pendingTasks (User_findById i s)"

definition state_of :: "db \<Rightarrow> string \<Rightarrow> (bool \<times> string) option" where
  "state_of s x = map_option (\<lambda>t. (completed t, assignedUser t)) (Task_findById x s)"

definition in_step ::
  "(string \<Rightarrow> string list option) \<Rightarrow> (string \<Rightarrow> (bool \<times> string) option) \<Rightarrow> bool" where
  "in_step P T \<longleftrightarrow>
     (\<forall>i p. P i = Some p \<longrightarrow>
        i \<noteq> [] \<and> distinct p \<and> (\<forall>x \<in> set p. T x = Some (False, i)))
     \<and> (\<forall>x a. T x = Some (False, a) \<and> a \<noteq> [] \<longrightarrow> (\<exists>p. P a = Some p \<and> x \<in> set p))"

text \<open>A store that satisfies the invariants of section 3 and is not consistent:
  both users hold t1, which is assigned to u1.\<close>

definition store_c :: db where
  "store_c =
     \<lparr>users = [\<lparr>u_id = ''u1'', u_name = ''Ann'', email = ''ann@x'', pendingTasks = [''t1'']\<rparr>,
               \<lparr>u_id = ''u2'', u_name = ''Bob'', email = ''bob@x'', pendingTasks = [''t1'']\<rparr>],
      tasks = [\<lparr>t_id = ''t1'', t_name = ''A'', description = [], deadline = ''d'',
                 completed = False, assignedUser = ''u1'', assignedUserName = ''Ann''\<rparr>],
      writes = []\<rparr>"

definition body_finish_u1 :: task_body where
  "body_finish_u1 = \<lparr>tb_name = Some ''A'', tb_description = None, tb_deadline = Some ''d'',
                      tb_completed = Some (JBool True), tb_assignedUser = Some ''u1'',
                      tb_assignedUserName = None\<rparr>"

section \<open>Properties\<close>

subsection \<open>De-duplication\<close>

lemma set_add_all_eq:
  "set_add_all seen xs = seen @ dedup_first_occurrence (filter (\<lambda>x. x \<notin> set seen) xs)"
proof (induction xs arbitrary: seen)
  case Nil
  then show ?case by simp
next
  case (Cons x xs)
  have "removeAll x (filter (\<lambda>y. y \<notin> set seen) xs) = filter (\<lambda>y. y \<notin> set (seen @ [x])) xs"
    by (induction xs) auto
  with Cons show ?case by simp
qed

lemma array_from_set_eq: "array_from_set xs = dedup_first_occurrence xs"
  by (simp add: array_from_set_def set_add_all_eq)

lemma set_dedup [simp]: "set (dedup_first_occurrence xs) = set xs"
  by (induction xs rule: dedup_first_occurrence.induct) auto

lemma distinct_dedup [simp]: "distinct (dedup_first_occurrence xs)"
  by (induction xs rule: dedup_first_occurrence.induct) auto

lemma dedup_distinct: "distinct xs \<Longrightarrow> dedup_first_occurrence xs = xs"
  by (induction xs) auto

lemma dedup_fixed_iff: "dedup_first_occurrence xs = xs \<longleftrightarrow> distinct xs"
  by (metis dedup_distinct distinct_dedup)

lemma every_indexed_nth:
  "every_indexed p k vs \<longleftrightarrow> (\<forall>j < length vs. p (vs ! j) (k + j))"
proof (induction vs arbitrary: k)
  case Nil
  then show ?case by simp
next
  case (Cons v vs)
  show ?case
    by (simp add: Cons.IH All_less_Suc2)
qed

lemma same_iff:
  "(length n = length p \<and> every_indexed (\<lambda>v i. v = String_at p i) 0 n) \<longleftrightarrow> n = p"
  by (auto simp: every_indexed_nth String_at_def list_eq_iff_nth_eq)

subsection \<open>The store primitives, seen through \<open>findById\<close>\<close>

lemma find_update_first:
  assumes "\<And>x. key x = i \<Longrightarrow> key (f x) = i"
  shows "find (\<lambda>x. key x = j) (update_first (\<lambda>x. key x = i) f xs) =
           (if j = i then map_option f (find (\<lambda>x. key x = i) xs)
            else find (\<lambda>x. key x = j) xs)"
  using assms by (induction xs) auto

lemma u_id_set_pendingTasks [simp]: "u_id (set_pendingTasks xs u) = u_id u"
  by (simp add: set_pendingTasks_def)

lemma User_findById_updateOne_set:
  "User_findById j (User_updateOne i (set_pendingTasks xs) s) =
     (if j = i then map_option (set_pendingTasks xs) (User_findById i s) else User_findById j s)"
  by (simp add: User_findById_def User_updateOne_def find_update_first)

subsection \<open>The normalizer\<close>

lemma normalize_unfold:
  "normalizePendingTasksForUser userId s =
     (case User_findById userId s of
        None \<Rightarrow> s
      | Some u \<Rightarrow>
          if distinct (pendingTasks u) then s
          else User_updateOne userId
                 (set_pendingTasks (dedup_first_occurrence (pendingTasks u))) s)"
  by (simp add: normalizePendingTasksForUser_def Let_def same_iff array_from_set_eq
      dedup_fixed_iff split: option.split)

text \<open>
  C6. For an existing user, the normalizer leaves the stored \<open>pendingTasks\<close> equal to
  its de-duplicated, first-occurrence-order version (which is what
  \<open>Array.from(new Set(...))\<close> computes); it sends a write exactly when the computed
  list differs from the stored one in length or at some position; on a list
  without duplicates it changes nothing and writes nothing; a second call after
  the first changes nothing.
\<close>

theorem normalizer_writes_only_on_change:
  assumes "User_findById userId s = Some u"
  shows "User_findById userId (normalizePendingTasksForUser userId s) =
           Some (u\<lparr>pendingTasks := dedup_first_occurrence (pendingTasks u)\<rparr>)
       \<and> array_from_set (pendingTasks u) = dedup_first_occurrence (pendingTasks u)
       \<and> writes (normalizePendingTasksForUser userId s) =
           (if length (array_from_set (pendingTasks u)) \<noteq> length (pendingTasks u) \<or>
               (\<exists>i < length (pendingTasks u).
                   array_from_set (pendingTasks u) ! i \<noteq> pendingTasks u ! i)
            then writes s @ [UserUpdateOne userId] else writes s)
       \<and> (distinct (pendingTasks u) \<longrightarrow> normalizePendingTasksForUser userId s = s)
       \<and> normalizePendingTasksForUser userId (normalizePendingTasksForUser userId s) =
           normalizePendingTasksForUser userId s"
proof -
  let ?d = "dedup_first_occurrence (pendingTasks u)"
  have differs:
    "(length ?d \<noteq> length (pendingTasks u) \<or>
      (\<exists>i < length (pendingTasks u). ?d ! i \<noteq> pendingTasks u ! i))
     \<longleftrightarrow> \<not> distinct (pendingTasks u)"
    using dedup_fixed_iff [of "pendingTasks u"] list_eq_iff_nth_eq [of ?d "pendingTasks u"]
    by auto
  have found: "User_findById userId (normalizePendingTasksForUser userId s) =
                 Some (u\<lparr>pendingTasks := ?d\<rparr>)"
    using assms
    by (simp add: normalize_unfold User_findById_updateOne_set set_pendingTasks_def
        dedup_distinct)
  have again: "normalizePendingTasksForUser userId (normalizePendingTasksForUser userId s) =
                 normalizePendingTasksForUser userId s"
    using found by (subst normalize_unfold) simp
  have w: "writes (normalizePendingTasksForUser userId s) =
             (if \<not> distinct (pendingTasks u) then writes s @ [UserUpdateOne userId]
              else writes s)"
    using assms by (simp add: normalize_unfold User_updateOne_def)
  have unchanged: "distinct (pendingTasks u) \<longrightarrow> normalizePendingTasksForUser userId s = s"
    using assms by (simp add: normalize_unfold)
  show ?thesis
    using found again w unchanged differs by (simp add: array_from_set_eq)
qed

theorem normalizer_writes_only_on_change_witness:
  "User_findById ''u1'' (normalizePendingTasksForUser ''u1'' store_a) =
     Some \<lparr>u_id = ''u1'', u_name = ''Ann'', email = ''ann@x'', pendingTasks = [''t1'', ''t2'']\<rparr>
   \<and> writes (normalizePendingTasksForUser ''u1'' store_a) = [UserUpdateOne ''u1'']
   \<and> normalizePendingTasksForUser ''u1'' (normalizePendingTasksForUser ''u1'' store_a) =
       normalizePendingTasksForUser ''u1'' store_a
   \<and> distinct (pendingTasks \<lparr>u_id = ''u2'', u_name = ''Bob'', email = ''bob@x'',
                              pendingTasks = [''t3'']\<rparr>)
   \<and> normalizePendingTasksForUser ''u2'' store_a = store_a"
proof -
  have f1: "User_findById ''u1'' store_a =
              Some \<lparr>u_id = ''u1'', u_name = ''Ann'', email = ''ann@x'',
                    pendingTasks = [''t1'', ''t2'', ''t1'']\<rparr>"
    by (simp add: User_findById_def store_a_def)
  have f2: "User_findById ''u2'' store_a =
              Some \<lparr>u_id = ''u2'', u_name = ''Bob'', email = ''bob@x'', pendingTasks = [''t3'']\<rparr>"
    by (simp add: User_findById_def store_a_def)
  show ?thesis
    using normalizer_writes_only_on_change [OF f1] normalizer_writes_only_on_change [OF f2]
    by (simp add: store_a_def array_from_set_def)
qed

lemma update_first_no_match: "find p xs = None \<Longrightarrow> update_first p f xs = xs"
  by (induction xs) (auto split: if_splits)

lemma update_first_cong_found:
  "find p xs = Some x \<Longrightarrow> update_first p f xs = update_first p (\<lambda>_. f x) xs"
  by (induction xs) (auto split: if_splits)

lemma update_first_same: "find p xs = Some x \<Longrightarrow> f x = x \<Longrightarrow> update_first p f xs = xs"
  by (induction xs) (auto split: if_splits)

lemma find_Some_key: "find (\<lambda>x. key x = i) xs = Some x \<Longrightarrow> key x = i \<and> x \<in> set xs"
  by (induction xs) (auto split: if_splits)

lemma find_None_key: "find (\<lambda>x. key x = i) xs = None \<longleftrightarrow> i \<notin> key ` set xs"
  by (induction xs) auto

lemma find_delete_first_other:
  "j \<noteq> i \<Longrightarrow> find (\<lambda>x. key x = j) (delete_first (\<lambda>x. key x = i) xs) = find (\<lambda>x. key x = j) xs"
  by (induction xs) auto

lemma find_map_if:
  assumes "\<And>x. key (g x) = key x"
  shows "find (\<lambda>x. key x = j) (map (\<lambda>t. if p t then g t else t) xs) =
           map_option (\<lambda>t. if p t then g t else t) (find (\<lambda>x. key x = j) xs)"
  using assms by (induction xs) auto

lemma find_append:
  "find p (xs @ ys) = (case find p xs of Some x \<Rightarrow> Some x | None \<Rightarrow> find p ys)"
  by (induction xs) auto

lemma User_updateOne_fields [store_simps]:
  "users (User_updateOne i f s) = update_first (\<lambda>u. u_id u = i) f (users s)"
  "tasks (User_updateOne i f s) = tasks s"
  "writes (User_updateOne i f s) = writes s @ [UserUpdateOne i]"
  by (simp_all add: User_updateOne_def)

lemma Task_updateMany_fields [store_simps]:
  "users (Task_updateMany p f s) = users s"
  "tasks (Task_updateMany p f s) = map (\<lambda>t. if p t then f t else t) (tasks s)"
  "writes (Task_updateMany p f s) = writes s @ [TaskUpdateMany]"
  by (simp_all add: Task_updateMany_def)

lemma User_deleteOne_fields [store_simps]:
  "users (User_deleteOne i s) = delete_first (\<lambda>u. u_id u = i) (users s)"
  "tasks (User_deleteOne i s) = tasks s"
  "writes (User_deleteOne i s) = writes s @ [UserDeleteOne i]"
  by (simp_all add: User_deleteOne_def)

lemma Task_deleteOne_fields [store_simps]:
  "users (Task_deleteOne i s) = users s"
  "tasks (Task_deleteOne i s) = delete_first (\<lambda>t. t_id t = i) (tasks s)"
  "writes (Task_deleteOne i s) = writes s @ [TaskDeleteOne i]"
  by (simp_all add: Task_deleteOne_def)

lemma Task_save_fields [store_simps]:
  "users (Task_save doc s) = users s"
  "tasks (Task_save doc s) = update_first (\<lambda>t. t_id t = t_id doc) (\<lambda>t. doc) (tasks s)"
  "writes (Task_save doc s) = writes s @ [TaskSave (t_id doc)]"
  by (simp_all add: Task_save_def)

lemma normalize_fields [store_simps]:
  "users (normalizePendingTasksForUser i s) =
     update_first (\<lambda>u. u_id u = i)
       (\<lambda>u. u\<lparr>pendingTasks := dedup_first_occurrence (pendingTasks u)\<rparr>) (users s)"
  "tasks (normalizePendingTasksForUser i s) = tasks s"
proof -
  show "tasks (normalizePendingTasksForUser i s) = tasks s"
    by (simp add: normalize_unfold User_updateOne_def split: option.split)
  show "users (normalizePendingTasksForUser i s) =
     update_first (\<lambda>u. u_id u = i)
       (\<lambda>u. u\<lparr>pendingTasks := dedup_first_occurrence (pendingTasks u)\<rparr>) (users s)"
  proof (cases "User_findById i s")
    case None
    then show ?thesis
      by (simp add: normalize_unfold User_findById_def update_first_no_match)
  next
    case (Some u)
    then have f: "find (\<lambda>u. u_id u = i) (users s) = Some u"
      by (simp add: User_findById_def)
    show ?thesis
    proof (cases "distinct (pendingTasks u)")
      case True
      then have "u\<lparr>pendingTasks := dedup_first_occurrence (pendingTasks u)\<rparr> = u"
        by (simp add: dedup_distinct)
      with f Some True show ?thesis
        by (simp add: normalize_unfold update_first_same)
    next
      case False
      have a: "update_first (\<lambda>u. u_id u = i)
                 (set_pendingTasks (dedup_first_occurrence (pendingTasks u))) (users s) =
               update_first (\<lambda>u. u_id u = i)
                 (\<lambda>_. u\<lparr>pendingTasks := dedup_first_occurrence (pendingTasks u)\<rparr>) (users s)"
        using update_first_cong_found [OF f,
            of "set_pendingTasks (dedup_first_occurrence (pendingTasks u))"]
        by (simp add: set_pendingTasks_def)
      have b: "update_first (\<lambda>u. u_id u = i)
                 (\<lambda>v. v\<lparr>pendingTasks := dedup_first_occurrence (pendingTasks v)\<rparr>) (users s) =
               update_first (\<lambda>u. u_id u = i)
                 (\<lambda>_. u\<lparr>pendingTasks := dedup_first_occurrence (pendingTasks u)\<rparr>) (users s)"
        by (rule update_first_cong_found [OF f])
      from Some False show ?thesis
        by (simp add: normalize_unfold User_updateOne_def a b)
    qed
  qed
qed

lemma User_findById_lookup [store_simps]:
  "(\<And>u. u_id (f u) = u_id u) \<Longrightarrow>
     User_findById j (User_updateOne i f s) =
       (if j = i then map_option f (User_findById i s) else User_findById j s)"
  "User_findById j (normalizePendingTasksForUser i s) =
     (if j = i
      then map_option (\<lambda>u. u\<lparr>pendingTasks := dedup_first_occurrence (pendingTasks u)\<rparr>)
             (User_findById i s)
      else User_findById j s)"
  "User_findById j (Task_updateMany p g s) = User_findById j s"
  "User_findById j (Task_save doc s) = User_findById j s"
  "User_findById j (Task_deleteOne i s) = User_findById j s"
  by (simp_all add: User_findById_def store_simps find_update_first)

lemma u_id_ops [simp]:
  "u_id (pull_pendingTasks x u) = u_id u"
  "u_id (addToSet_pendingTasks x u) = u_id u"
  by (simp_all add: pull_pendingTasks_def addToSet_pendingTasks_def)

lemma Task_findById_lookup [store_simps]:
  "Task_findById j (User_updateOne i f s) = Task_findById j s"
  "Task_findById j (normalizePendingTasksForUser i s) = Task_findById j s"
  "Task_findById j (User_deleteOne i s) = Task_findById j s"
  "Task_findById j (Task_save doc s) =
     (if j = t_id doc then map_option (\<lambda>t. doc) (Task_findById j s) else Task_findById j s)"
  "(\<And>t. t_id (g t) = t_id t) \<Longrightarrow>
     Task_findById j (Task_updateMany p g s) =
       map_option (\<lambda>t. if p t then g t else t) (Task_findById j s)"
  by (simp_all add: Task_findById_def store_simps find_update_first find_map_if)

lemma normalize_writes:
  "\<exists>ws. writes (normalizePendingTasksForUser i s) = writes s @ ws \<and> set ws \<subseteq> {UserUpdateOne i}"
  by (auto simp: normalize_unfold User_updateOne_def split: option.split)

subsection \<open>Deleting\<close>

text \<open>
  C5. Deleting an existing user answers with an empty 204; every task whose id is
  in that user's \<open>pendingTasks\<close> gets \<open>assignedUser = ""\<close> and
  \<open>assignedUserName = "unassigned"\<close> (the other tasks are untouched), and the write
  to the tasks precedes the removal of the user. Deleting an existing assigned
  task answers with an empty 204; the assignee, if it exists, no longer holds the
  task's id, and the write to the assignee precedes the removal of the task.
\<close>

theorem deletion_cascades:
  "(User_findById uid s = Some u \<longrightarrow>
      fst (users_id_delete uid s) = End 204
    \<and> tasks (snd (users_id_delete uid s)) =
        map (\<lambda>t. if t_id t \<in> set (pendingTasks u)
                 then t\<lparr>assignedUser := [], assignedUserName := ''unassigned''\<rparr> else t) (tasks s)
    \<and> users (snd (users_id_delete uid s)) = delete_first (\<lambda>v. u_id v = uid) (users s)
    \<and> writes (snd (users_id_delete uid s)) =
        writes s @ (if pendingTasks u = [] then [] else [TaskUpdateMany]) @ [UserDeleteOne uid])
   \<and> (Task_findById tid s = Some t \<and> assignedUser t \<noteq> [] \<longrightarrow>
      fst (tasks_id_delete tid s) = End 204
    \<and> tasks (snd (tasks_id_delete tid s)) = delete_first (\<lambda>t. t_id t = tid) (tasks s)
    \<and> (\<forall>a. User_findById (assignedUser t) s = Some a \<longrightarrow>
          (\<exists>a'. User_findById (assignedUser t) (snd (tasks_id_delete tid s)) = Some a'
              \<and> set (pendingTasks a') = set (pendingTasks a) - {tid}))
    \<and> (\<exists>ws. writes (snd (tasks_id_delete tid s)) =
               writes s @ [UserUpdateOne (assignedUser t)] @ ws @ [TaskDeleteOne tid]
             \<and> set ws \<subseteq> {UserUpdateOne (assignedUser t)}))"
proof (intro conjI impI)
  assume u: "User_findById uid s = Some u"
  show "fst (users_id_delete uid s) = End 204"
    using u by (simp add: users_id_delete_def Let_def)
  show "tasks (snd (users_id_delete uid s)) =
        map (\<lambda>t. if t_id t \<in> set (pendingTasks u)
                 then t\<lparr>assignedUser := [], assignedUserName := ''unassigned''\<rparr> else t) (tasks s)"
    using u by (simp add: users_id_delete_def Let_def store_simps unassign_def)
  show "users (snd (users_id_delete uid s)) = delete_first (\<lambda>v. u_id v = uid) (users s)"
    using u by (simp add: users_id_delete_def Let_def store_simps)
  show "writes (snd (users_id_delete uid s)) =
        writes s @ (if pendingTasks u = [] then [] else [TaskUpdateMany]) @ [UserDeleteOne uid]"
    using u by (simp add: users_id_delete_def Let_def store_simps)
next
  assume "Task_findById tid s = Some t \<and> assignedUser t \<noteq> []"
  then have t: "Task_findById tid s = Some t" and a: "assignedUser t \<noteq> []"
    by simp_all
  have tid: "t_id t = tid"
    using t find_Some_key [of t_id tid "tasks s" t] by (simp add: Task_findById_def)
  let ?s1 = "User_updateOne (assignedUser t) (pull_pendingTasks tid) s"
  have unfold: "snd (tasks_id_delete tid s) =
                  Task_deleteOne tid (normalizePendingTasksForUser (assignedUser t) ?s1)"
    using t a tid by (simp add: tasks_id_delete_def Let_def)
  show "fst (tasks_id_delete tid s) = End 204"
    using t by (simp add: tasks_id_delete_def Let_def)
  show "tasks (snd (tasks_id_delete tid s)) = delete_first (\<lambda>t. t_id t = tid) (tasks s)"
    by (simp add: unfold store_simps)
  show "\<forall>a. User_findById (assignedUser t) s = Some a \<longrightarrow>
          (\<exists>a'. User_findById (assignedUser t) (snd (tasks_id_delete tid s)) = Some a'
              \<and> set (pendingTasks a') = set (pendingTasks a) - {tid})"
    by (auto simp: unfold store_simps pull_pendingTasks_def)
  obtain ws where "writes (normalizePendingTasksForUser (assignedUser t) ?s1) = writes ?s1 @ ws"
    and "set ws \<subseteq> {UserUpdateOne (assignedUser t)}"
    using normalize_writes by blast
  then show "\<exists>ws. writes (snd (tasks_id_delete tid s)) =
               writes s @ [UserUpdateOne (assignedUser t)] @ ws @ [TaskDeleteOne tid]
             \<and> set ws \<subseteq> {UserUpdateOne (assignedUser t)}"
    by (simp add: unfold store_simps)
qed

theorem deletion_cascades_witness:
  "fst (users_id_delete ''u1'' store_b) = End 204
   \<and> map (\<lambda>t. (t_id t, assignedUser t, assignedUserName t)) (tasks (snd (users_id_delete ''u1'' store_b))) =
       [(''t1'', [], ''unassigned''), (''t2'', [], ''unassigned''), (''t3'', ''u2'', ''Bob''),
        (''t4'', ''u1'', ''Ann''), (''t5'', [], ''unassigned'')]
   \<and> map u_id (users (snd (users_id_delete ''u1'' store_b))) = [''u2'']
   \<and> writes (snd (users_id_delete ''u1'' store_b)) = [TaskUpdateMany, UserDeleteOne ''u1'']
   \<and> fst (tasks_id_delete ''t3'' store_b) = End 204
   \<and> map t_id (tasks (snd (tasks_id_delete ''t3'' store_b))) = [''t1'', ''t2'', ''t4'', ''t5'']
   \<and> (\<exists>a'. User_findById ''u2'' (snd (tasks_id_delete ''t3'' store_b)) = Some a'
          \<and> set (pendingTasks a') = {})"
proof -
  let ?u1 = "\<lparr>u_id = ''u1'', u_name = ''Ann'', email = ''ann@x'', pendingTasks = [''t1'', ''t2'']\<rparr>"
  let ?u2 = "\<lparr>u_id = ''u2'', u_name = ''Bob'', email = ''bob@x'', pendingTasks = [''t3'']\<rparr>"
  let ?t3 = "\<lparr>t_id = ''t3'', t_name = ''C'', description = [], deadline = ''d'',
              completed = False, assignedUser = ''u2'', assignedUserName = ''Bob''\<rparr>"
  have f1: "User_findById ''u1'' store_b = Some ?u1"
    by (simp add: User_findById_def store_b_def)
  have f2: "Task_findById ''t3'' store_b = Some ?t3 \<and> assignedUser ?t3 \<noteq> []"
    by (simp add: Task_findById_def store_b_def)
  have f3: "User_findById (assignedUser ?t3) store_b = Some ?u2"
    by (simp add: User_findById_def store_b_def)
  note th = deletion_cascades [where uid = "''u1''" and s = store_b and tid = "''t3''"
      and u = ?u1 and t = ?t3]
  from th f1 have user_part:
    "fst (users_id_delete ''u1'' store_b) = End 204
    \<and> tasks (snd (users_id_delete ''u1'' store_b)) =
        map (\<lambda>t. if t_id t \<in> set (pendingTasks ?u1)
                 then t\<lparr>assignedUser := [], assignedUserName := ''unassigned''\<rparr> else t)
          (tasks store_b)
    \<and> users (snd (users_id_delete ''u1'' store_b)) =
        delete_first (\<lambda>v. u_id v = ''u1'') (users store_b)
    \<and> writes (snd (users_id_delete ''u1'' store_b)) =
        writes store_b @ (if pendingTasks ?u1 = [] then [] else [TaskUpdateMany]) @
        [UserDeleteOne ''u1'']"
    by blast
  from th f2 have task_part:
    "fst (tasks_id_delete ''t3'' store_b) = End 204
    \<and> tasks (snd (tasks_id_delete ''t3'' store_b)) =
        delete_first (\<lambda>t. t_id t = ''t3'') (tasks store_b)
    \<and> (\<forall>a. User_findById (assignedUser ?t3) store_b = Some a \<longrightarrow>
          (\<exists>a'. User_findById (assignedUser ?t3) (snd (tasks_id_delete ''t3'' store_b)) = Some a'
              \<and> set (pendingTasks a') = set (pendingTasks a) - {''t3''}))"
    by blast
  from task_part f3 have
    "\<exists>a'. User_findById (assignedUser ?t3) (snd (tasks_id_delete ''t3'' store_b)) = Some a'
              \<and> set (pendingTasks a') = set (pendingTasks ?u2) - {''t3''}"
    by blast
  then have u2: "\<exists>a'. User_findById ''u2'' (snd (tasks_id_delete ''t3'' store_b)) = Some a'
              \<and> set (pendingTasks a') = {}"
    by simp
  from user_part task_part u2 show ?thesis
    by (simp add: store_b_def)
qed

lemma Task_insert_Inr:
  assumes "Task_insert doc s = Inr s'"
  shows "users s' = users s" and "tasks s' = tasks s @ [doc]"
    and "Task_findById (t_id doc) s' = Some doc"
    and "User_findById j s' = User_findById j s"
    and "writes s' = writes s @ [TaskSave (t_id doc)]"
proof -
  from assms have fresh: "\<not> (\<exists>t \<in> set (tasks s). t_id t = t_id doc)"
    and s': "s' = s\<lparr>tasks := tasks s @ [doc], writes := writes s @ [TaskSave (t_id doc)]\<rparr>"
    by (auto simp: Task_insert_def split: if_splits)
  from fresh have "find (\<lambda>t. t_id t = t_id doc) (tasks s) = None"
    by (auto simp: find_None_iff)
  then show "Task_findById (t_id doc) s' = Some doc"
    by (simp add: s' Task_findById_def find_append)
  show "users s' = users s" "tasks s' = tasks s @ [doc]"
    "User_findById j s' = User_findById j s" "writes s' = writes s @ [TaskSave (t_id doc)]"
    by (simp_all add: s' User_findById_def)
qed

lemma count_list_distinct:
  "distinct xs \<Longrightarrow> count_list xs x = (if x \<in> set xs then 1 else 0)"
  by (induction xs) auto

lemma Task_findById_id: "Task_findById i s = Some t \<Longrightarrow> t_id t = i"
  using find_Some_key [of t_id i "tasks s" t] by (simp add: Task_findById_def)

lemma User_findById_id: "User_findById i s = Some u \<Longrightarrow> u_id u = i"
  using find_Some_key [of u_id i "users s" u] by (simp add: User_findById_def)

text \<open>The user lists after the cascade of PUT /tasks/:id.\<close>

lemma tasks_put_cascade_user:
  assumes "t_id task = tid"
  shows "User_findById j (snd (tasks_put_cascade prev task s)) =
     map_option
       (\<lambda>u. u\<lparr>pendingTasks :=
               (let p1 = (if j = prev \<and> prev \<noteq> [] \<and> prev \<noteq> assignedUser task
                          then dedup_first_occurrence (removeAll tid (pendingTasks u))
                          else pendingTasks u)
                in if j = assignedUser task \<and> assignedUser task \<noteq> []
                   then dedup_first_occurrence
                          (if completed task then removeAll tid p1
                           else if tid \<in> set p1 then p1 else p1 @ [tid])
                   else p1)\<rparr>)
       (User_findById j s)"
  using assms
  by (cases "User_findById j s")
    (auto simp: tasks_put_cascade_def Let_def store_simps pull_pendingTasks_def
      addToSet_pendingTasks_def)

lemma tasks_put_cascade_task:
  assumes "Task_findById tid s = Some t0" "t_id task = tid"
  shows "Task_findById tid (snd (tasks_put_cascade prev task s)) = Some task"
  using assms by (simp add: tasks_put_cascade_def Let_def store_simps)

lemma tasks_post_save_201:
  assumes "tasks_post_save task s = (Response 201 msg d, s')"
  shows "\<exists>s1. Task_insert task s = Inr s1
           \<and> s' = (if assignedUser task \<noteq> [] \<and> \<not> completed task
                     then normalizePendingTasksForUser (assignedUser task)
                            (User_updateOne (assignedUser task)
                               (addToSet_pendingTasks (t_id task)) s1)
                     else s1)"
  using assms
  by (cases "Task_insert task s") (auto simp: tasks_post_save_def sendResponse_def)

lemma tasks_post_201:
  assumes "tasks_post new_id body s = (Response 201 msg d, s')"
  shows "\<exists>nm. tasks_post_check body s = Inr nm
           \<and> tasks_post_save
                 \<lparr>t_id = new_id, t_name = the (tb_name body),
                   description = or_else (tb_description body) [],
                   deadline = the (tb_deadline body),
                   completed = completed_flag (tb_completed body),
                   assignedUser = or_else (tb_assignedUser body) [],
                   assignedUserName = or_else nm ''unassigned''\<rparr> s = (Response 201 msg d, s')"
  using assms
  by (cases "tasks_post_check body s")
    (auto simp: tasks_post_def sendResponse_def tasks_post_check_def
      split: if_splits option.splits)

lemma tasks_post_check_Inr:
  assumes "tasks_post_check body s = Inr nm" "given (tb_assignedUser body)"
  shows "\<exists>doc. User_findById (the (tb_assignedUser body)) s = Some doc"
  using assms by (auto simp: tasks_post_check_def split: option.splits)

lemma tasks_post_success:
  assumes "tasks_post new_id body s = (Response 201 msg d, s')"
  shows "\<exists>task s1. Task_insert task s = Inr s1 \<and> t_id task = new_id
           \<and> completed task = completed_flag (tb_completed body)
           \<and> assignedUser task = or_else (tb_assignedUser body) []
           \<and> (given (tb_assignedUser body) \<longrightarrow>
                  (\<exists>doc. User_findById (the (tb_assignedUser body)) s = Some doc))
           \<and> s' = (if assignedUser task \<noteq> [] \<and> \<not> completed task
                     then normalizePendingTasksForUser (assignedUser task)
                            (User_updateOne (assignedUser task)
                               (addToSet_pendingTasks new_id) s1)
                     else s1)"
proof -
  from tasks_post_201 [OF assms] obtain nm task where
    nm: "tasks_post_check body s = Inr nm"
    and task: "task = \<lparr>t_id = new_id, t_name = the (tb_name body),
                   description = or_else (tb_description body) [],
                   deadline = the (tb_deadline body),
                   completed = completed_flag (tb_completed body),
                   assignedUser = or_else (tb_assignedUser body) [],
                   assignedUserName = or_else nm ''unassigned''\<rparr>"
    and save: "tasks_post_save task s = (Response 201 msg d, s')"
    by blast
  from tasks_post_save_201 [OF save] obtain s1 where
    s1: "Task_insert task s = Inr s1"
    and s': "s' = (if assignedUser task \<noteq> [] \<and> \<not> completed task
                     then normalizePendingTasksForUser (assignedUser task)
                            (User_updateOne (assignedUser task)
                               (addToSet_pendingTasks (t_id task)) s1)
                     else s1)"
    by blast
  have fields: "t_id task = new_id" "completed task = completed_flag (tb_completed body)"
    "assignedUser task = or_else (tb_assignedUser body) []"
    by (simp_all add: task)
  have ex: "given (tb_assignedUser body) \<longrightarrow>
                  (\<exists>doc. User_findById (the (tb_assignedUser body)) s = Some doc)"
    using tasks_post_check_Inr [OF nm] by blast
  show ?thesis
    using s1 s' fields ex by blast
qed

lemma tasks_put_cascade_fst: "fst (tasks_put_cascade prev task s) = Response 200 ''Task updated'' (TaskDoc task)"
  by (simp add: tasks_put_cascade_def Let_def sendResponse_def)

lemma tasks_id_put_success:
  assumes "tasks_id_put tid body s = (Response 200 msg d, s')"
  shows "\<exists>t task. Task_findById tid s = Some t \<and> \<not> completed t \<and> t_id task = tid
           \<and> completed task = completed_flag (tb_completed body)
           \<and> s' = snd (tasks_put_cascade (assignedUser t) task s)
           \<and> (if given (tb_assignedUser body)
                then (\<exists>doc. User_findById (the (tb_assignedUser body)) s = Some doc
                        \<and> assignedUser task = the (tb_assignedUser body)
                        \<and> assignedUserName task = u_name doc)
                else assignedUser task = [] \<and> assignedUserName task = ''unassigned'')"
proof -
  have g: "given (tb_name body)" "given (tb_deadline body)"
    using assms by (auto simp: tasks_id_put_def sendResponse_def split: if_splits)
  obtain t where t: "Task_findById tid s = Some t"
    using assms g by (cases "Task_findById tid s") (auto simp: tasks_id_put_def sendResponse_def)
  have nc: "\<not> completed t"
    using assms g t by (auto simp: tasks_id_put_def sendResponse_def split: if_splits)
  have tid: "t_id t = tid"
    using t by (rule Task_findById_id)
  define task0 where "task0 = t\<lparr>t_name := the (tb_name body),
                            description := or_else (tb_description body) [],
                            deadline := the (tb_deadline body),
                            completed := completed_flag (tb_completed body)\<rparr>"
  have unfold: "tasks_id_put tid body s =
      (if given (tb_assignedUser body)
                  then (case User_findById (the (tb_assignedUser body)) s of
                          None \<Rightarrow>
                            (sendResponse 404 ''Assigned user not found''
                               (Missing [the (tb_assignedUser body)]), s)
                        | Some assignedUserDoc \<Rightarrow>
                            if tb_assignedUserName body \<noteq> None \<and>
                               toLowerCase (the (tb_assignedUserName body)) \<noteq> ''unassigned'' \<and>
                               the (tb_assignedUserName body) \<noteq> u_name assignedUserDoc
                            then (sendResponse 400
                                    ''assignedUserName does not match user record'' Empty, s)
                            else tasks_put_cascade (assignedUser t)
                                   (task0\<lparr>assignedUser := the (tb_assignedUser body),
                                         assignedUserName := u_name assignedUserDoc\<rparr>) s)
                  else tasks_put_cascade (assignedUser t)
                         (task0\<lparr>assignedUser := [], assignedUserName := ''unassigned''\<rparr>) s)"
    using g t nc by (simp add: tasks_id_put_def Let_def task0_def split: option.split)
  show ?thesis
  proof (cases "given (tb_assignedUser body)")
    case False
    let ?task = "task0\<lparr>assignedUser := [], assignedUserName := ''unassigned''\<rparr>"
    from assms False have "s' = snd (tasks_put_cascade (assignedUser t) ?task s)"
      by (simp add: unfold)
    moreover have "t_id ?task = tid" "completed ?task = completed_flag (tb_completed body)"
      "assignedUser ?task = []" "assignedUserName ?task = ''unassigned''"
      by (simp_all add: task0_def tid)
    ultimately show ?thesis
      using t nc False by (intro exI [of _ t] exI [of _ ?task]) simp
  next
    case True
    obtain doc where doc: "User_findById (the (tb_assignedUser body)) s = Some doc"
      using assms True
      by (cases "User_findById (the (tb_assignedUser body)) s")
        (auto simp: unfold sendResponse_def)
    let ?task = "task0\<lparr>assignedUser := the (tb_assignedUser body),
                       assignedUserName := u_name doc\<rparr>"
    from assms True doc have "s' = snd (tasks_put_cascade (assignedUser t) ?task s)"
      by (simp add: unfold sendResponse_def split: if_splits)
    moreover have "t_id ?task = tid" "completed ?task = completed_flag (tb_completed body)"
      "assignedUser ?task = the (tb_assignedUser body)" "assignedUserName ?task = u_name doc"
      by (simp_all add: task0_def tid)
    ultimately show ?thesis
      using t nc True doc by (intro exI [of _ t] exI [of _ ?task]) simp
  qed
qed

subsection \<open>Creating and completing a task\<close>

text \<open>
  C3. When POST /tasks succeeds for a body with \<open>assignedUser = U\<close> and
  \<open>completed\<close> not true, user U holds the new task's id afterwards; when a
  PUT /tasks/:id on that task with \<open>completed = true\<close> succeeds after it, user U no
  longer holds the id (whatever the update says about \<open>assignedUser\<close>).
\<close>

theorem create_then_complete_round_trip:
  assumes create: "tasks_post new_id body s = (Response 201 msg d, s1)"
    and assigned: "tb_assignedUser body = Some U" "U \<noteq> []"
    and not_done: "\<not> completed_flag (tb_completed body)"
    and update: "tasks_id_put new_id body' s1 = (Response 200 msg' d', s2)"
    and finished: "completed_flag (tb_completed body')"
  shows "(\<exists>u1. User_findById U s1 = Some u1 \<and> new_id \<in> set (pendingTasks u1))
       \<and> (\<exists>u2. User_findById U s2 = Some u2 \<and> new_id \<notin> set (pendingTasks u2))"
proof -
  from assigned have gU: "given (tb_assignedUser body)" "or_else (tb_assignedUser body) [] = U"
    by (simp_all add: given_def or_else_def)
  from tasks_post_success [OF create] gU assigned not_done obtain task s0 doc where
    ins: "Task_insert task s = Inr s0" and id: "t_id task = new_id"
    and c: "\<not> completed task" and a: "assignedUser task = U"
    and doc: "User_findById U s = Some doc"
    and s1: "s1 = normalizePendingTasksForUser U
                    (User_updateOne U (addToSet_pendingTasks new_id) s0)"
    by auto
  have doc0: "User_findById U s0 = Some doc"
    using Task_insert_Inr(4) [OF ins] doc by simp
  have t0: "Task_findById new_id s0 = Some task"
    using Task_insert_Inr(3) [OF ins] id by simp
  define u1 where "u1 = (addToSet_pendingTasks new_id doc)\<lparr>pendingTasks :=
                     dedup_first_occurrence (pendingTasks (addToSet_pendingTasks new_id doc))\<rparr>"
  have f1: "User_findById U s1 = Some u1"
    by (simp add: s1 store_simps doc0 u1_def)
  have in1: "new_id \<in> set (pendingTasks u1)"
    by (simp add: u1_def addToSet_pendingTasks_def)
  have t1: "Task_findById new_id s1 = Some task"
    by (simp add: s1 store_simps t0)
  from tasks_id_put_success [OF update] t1 a finished obtain task' where
    id': "t_id task' = new_id" and c': "completed task'"
    and s2: "s2 = snd (tasks_put_cascade U task' s1)"
    by auto
  have "\<exists>u2. User_findById U s2 = Some u2 \<and> new_id \<notin> set (pendingTasks u2)"
    using assigned(2) c'
    by (auto simp: s2 tasks_put_cascade_user [OF id'] f1 Let_def)
  with f1 in1 show ?thesis by blast
qed

theorem create_then_complete_round_trip_witness:
  "fst (tasks_post ''t9'' body_new store_b) =
     Response 201 ''Task created''
       (TaskDoc \<lparr>t_id = ''t9'', t_name = ''F'', description = [], deadline = ''d'',
                  completed = False, assignedUser = ''u2'', assignedUserName = ''Bob''\<rparr>)
   \<and> fst (tasks_id_put ''t9'' body_finish (snd (tasks_post ''t9'' body_new store_b))) =
     Response 200 ''Task updated''
       (TaskDoc \<lparr>t_id = ''t9'', t_name = ''F'', description = [], deadline = ''d'',
                  completed = True, assignedUser = ''u2'', assignedUserName = ''Bob''\<rparr>)
   \<and> (\<exists>u1. User_findById ''u2'' (snd (tasks_post ''t9'' body_new store_b)) = Some u1
          \<and> ''t9'' \<in> set (pendingTasks u1))
   \<and> (\<exists>u2. User_findById ''u2''
            (snd (tasks_id_put ''t9'' body_finish (snd (tasks_post ''t9'' body_new store_b)))) =
          Some u2 \<and> ''t9'' \<notin> set (pendingTasks u2))"
proof -
  have e1: "fst (tasks_post ''t9'' body_new store_b) =
     Response 201 ''Task created''
       (TaskDoc \<lparr>t_id = ''t9'', t_name = ''F'', description = [], deadline = ''d'',
                  completed = False, assignedUser = ''u2'', assignedUserName = ''Bob''\<rparr>)"
    by code_simp
  have e2: "fst (tasks_id_put ''t9'' body_finish (snd (tasks_post ''t9'' body_new store_b))) =
     Response 200 ''Task updated''
       (TaskDoc \<lparr>t_id = ''t9'', t_name = ''F'', description = [], deadline = ''d'',
                  completed = True, assignedUser = ''u2'', assignedUserName = ''Bob''\<rparr>)"
    by code_simp
  have h1: "tasks_post ''t9'' body_new store_b =
     (Response 201 ''Task created''
       (TaskDoc \<lparr>t_id = ''t9'', t_name = ''F'', description = [], deadline = ''d'',
                  completed = False, assignedUser = ''u2'', assignedUserName = ''Bob''\<rparr>),
      snd (tasks_post ''t9'' body_new store_b))"
    by (simp add: prod_eq_iff e1)
  have h2: "tasks_id_put ''t9'' body_finish (snd (tasks_post ''t9'' body_new store_b)) =
     (Response 200 ''Task updated''
       (TaskDoc \<lparr>t_id = ''t9'', t_name = ''F'', description = [], deadline = ''d'',
                  completed = True, assignedUser = ''u2'', assignedUserName = ''Bob''\<rparr>),
      snd (tasks_id_put ''t9'' body_finish (snd (tasks_post ''t9'' body_new store_b))))"
    by (simp add: prod_eq_iff e2)
  have h3: "tb_assignedUser body_new = Some ''u2''" "''u2'' \<noteq> []"
    "\<not> completed_flag (tb_completed body_new)" "completed_flag (tb_completed body_finish)"
    by (simp_all add: body_new_def body_finish_def completed_flag_def)
  from create_then_complete_round_trip [OF h1 h3(1) h3(2) h3(3) h2 h3(4)] e1 e2
  show ?thesis by blast
qed

subsection \<open>Reassigning a task\<close>

text \<open>
  C4, as the claim states it, fails when the update that reassigns the task also
  completes it: the handler then pulls the id from the new assignee's list
  instead of adding it. Task t1 is not completed and assigned to u1; the update
  names u2 and sets \<open>completed\<close>; the answer is 200, u1 loses t1 and u2 keeps
  its list t3.
\<close>

theorem reassignment_with_completion_counterexample:
  "map_option completed (Task_findById ''t1'' store_b) = Some False
   \<and> map_option assignedUser (Task_findById ''t1'' store_b) = Some ''u1''
   \<and> map_option pendingTasks (User_findById ''u1'' store_b) = Some [''t1'', ''t2'']
   \<and> map_option pendingTasks (User_findById ''u2'' store_b) = Some [''t3'']
   \<and> tb_assignedUser body_finish = Some ''u2''
   \<and> fst (tasks_id_put ''t1'' body_finish store_b) =
       Response 200 ''Task updated''
         (TaskDoc \<lparr>t_id = ''t1'', t_name = ''F'', description = [], deadline = ''d'',
                    completed = True, assignedUser = ''u2'', assignedUserName = ''Bob''\<rparr>)
   \<and> map_option pendingTasks
        (User_findById ''u1'' (snd (tasks_id_put ''t1'' body_finish store_b))) = Some [''t2'']
   \<and> map_option pendingTasks
        (User_findById ''u2'' (snd (tasks_id_put ''t1'' body_finish store_b))) = Some [''t3'']"
  by code_simp

text \<open>
  C4, amended. A task that is not completed and is assigned to an existing user
  U1 is updated with \<open>assignedUser = U2\<close>, a different existing user. When the
  update succeeds, U1 no longer holds the task's id (its other entries stay), and
  the stored task names U2, carries U2's name and has the \<open>completed\<close> value of
  the request. If the request does not set \<open>completed\<close> to true, U2 holds the
  id exactly once, next to its earlier entries; if it does, U2 does not hold the
  id and keeps its other entries.
\<close>

theorem reassignment_moves_pending:
  assumes task: "Task_findById tid s = Some t" "assignedUser t = U1" "U1 \<noteq> []"
    and users: "User_findById U1 s = Some u1" "User_findById U2 s = Some u2" "U1 \<noteq> U2"
    and body: "tb_assignedUser body = Some U2" "U2 \<noteq> []"
    and update: "tasks_id_put tid body s = (Response 200 msg d, s')"
  shows "(\<exists>u1'. User_findById U1 s' = Some u1' \<and> tid \<notin> set (pendingTasks u1')
            \<and> set (pendingTasks u1') = set (pendingTasks u1) - {tid})
       \<and> (\<exists>u2'. User_findById U2 s' = Some u2'
            \<and> (if completed_flag (tb_completed body)
               then tid \<notin> set (pendingTasks u2')
                    \<and> set (pendingTasks u2') = set (pendingTasks u2) - {tid}
               else count_list (pendingTasks u2') tid = 1
                    \<and> set (pendingTasks u2') = insert tid (set (pendingTasks u2))))
       \<and> (\<exists>t'. Task_findById tid s' = Some t'
            \<and> completed t' = completed_flag (tb_completed body)
            \<and> assignedUser t' = U2 \<and> assignedUserName t' = u_name u2)"
proof -
  from body have gU: "given (tb_assignedUser body)" "the (tb_assignedUser body) = U2"
    by (simp_all add: given_def)
  from tasks_id_put_success [OF update] task gU users obtain task' where
    id': "t_id task' = tid" and c': "completed task' = completed_flag (tb_completed body)"
    and a': "assignedUser task' = U2" and n': "assignedUserName task' = u_name u2"
    and s': "s' = snd (tasks_put_cascade U1 task' s)"
    by auto
  have p1: "\<exists>u1'. User_findById U1 s' = Some u1' \<and> tid \<notin> set (pendingTasks u1')
            \<and> set (pendingTasks u1') = set (pendingTasks u1) - {tid}"
    using task(3) users(1,3) a'
    by (auto simp: s' tasks_put_cascade_user [OF id'] Let_def)
  have p2: "\<exists>u2'. User_findById U2 s' = Some u2'
            \<and> (if completed_flag (tb_completed body)
               then tid \<notin> set (pendingTasks u2')
                    \<and> set (pendingTasks u2') = set (pendingTasks u2) - {tid}
               else count_list (pendingTasks u2') tid = 1
                    \<and> set (pendingTasks u2') = insert tid (set (pendingTasks u2)))"
  proof (cases "completed_flag (tb_completed body)")
    case True
    with users(2,3) a' c' body(2) show ?thesis
      by (auto simp: s' tasks_put_cascade_user [OF id'] Let_def)
  next
    case False
    with users(2,3) a' c' body(2) show ?thesis
      by (auto simp: s' tasks_put_cascade_user [OF id'] Let_def count_list_distinct)
  qed
  have p3: "\<exists>t'. Task_findById tid s' = Some t'
            \<and> completed t' = completed_flag (tb_completed body)
            \<and> assignedUser t' = U2 \<and> assignedUserName t' = u_name u2"
    using tasks_put_cascade_task [OF task(1) id', of U1] c' a' n' by (simp add: s')
  from p1 p2 p3 show ?thesis by blast
qed

theorem reassignment_moves_pending_witness:
  "fst (tasks_id_put ''t1'' body_new store_b) =
     Response 200 ''Task updated''
       (TaskDoc \<lparr>t_id = ''t1'', t_name = ''F'', description = [], deadline = ''d'',
                  completed = False, assignedUser = ''u2'', assignedUserName = ''Bob''\<rparr>)
   \<and> (\<exists>u1'. User_findById ''u1'' (snd (tasks_id_put ''t1'' body_new store_b)) = Some u1'
          \<and> ''t1'' \<notin> set (pendingTasks u1') \<and> set (pendingTasks u1') = {''t2''})
   \<and> (\<exists>u2'. User_findById ''u2'' (snd (tasks_id_put ''t1'' body_new store_b)) = Some u2'
          \<and> count_list (pendingTasks u2') ''t1'' = 1
          \<and> set (pendingTasks u2') = {''t1'', ''t3''})
   \<and> (\<exists>t'. Task_findById ''t1'' (snd (tasks_id_put ''t1'' body_new store_b)) = Some t'
          \<and> \<not> completed t' \<and> assignedUser t' = ''u2'' \<and> assignedUserName t' = ''Bob'')"
proof -
  let ?t1 = "\<lparr>t_id = ''t1'', t_name = ''A'', description = [], deadline = ''d'',
               completed = False, assignedUser = ''u1'', assignedUserName = ''Ann''\<rparr>"
  let ?u1 = "\<lparr>u_id = ''u1'', u_name = ''Ann'', email = ''ann@x'',
               pendingTasks = [''t1'', ''t2'']\<rparr>"
  let ?u2 = "\<lparr>u_id = ''u2'', u_name = ''Bob'', email = ''bob@x'', pendingTasks = [''t3'']\<rparr>"
  have e: "fst (tasks_id_put ''t1'' body_new store_b) =
     Response 200 ''Task updated''
       (TaskDoc \<lparr>t_id = ''t1'', t_name = ''F'', description = [], deadline = ''d'',
                  completed = False, assignedUser = ''u2'', assignedUserName = ''Bob''\<rparr>)"
    by code_simp
  have h: "tasks_id_put ''t1'' body_new store_b =
     (Response 200 ''Task updated''
       (TaskDoc \<lparr>t_id = ''t1'', t_name = ''F'', description = [], deadline = ''d'',
                  completed = False, assignedUser = ''u2'', assignedUserName = ''Bob''\<rparr>),
      snd (tasks_id_put ''t1'' body_new store_b))"
    by (simp add: prod_eq_iff e)
  have f: "Task_findById ''t1'' store_b = Some ?t1" "assignedUser ?t1 = ''u1''" "''u1'' \<noteq> []"
    "User_findById ''u1'' store_b = Some ?u1" "User_findById ''u2'' store_b = Some ?u2"
    "''u1'' \<noteq> ''u2''" "tb_assignedUser body_new = Some ''u2''" "''u2'' \<noteq> []"
    by (simp_all add: Task_findById_def User_findById_def store_b_def body_new_def)
  have nc: "\<not> completed_flag (tb_completed body_new)"
    by (simp add: body_new_def completed_flag_def)
  have d: "set (pendingTasks ?u1) - {''t1''} = {''t2''}"
    by auto
  from reassignment_moves_pending [OF f h] e nc
  show ?thesis unfolding d by (simp add: insert_commute)
qed

subsection \<open>The name check of PUT /tasks/:id\<close>

text \<open>
  C8, as the claim states it, fails: \<open>assignedUserName = "UNASSIGNED"\<close> is not the
  literal \<open>"unassigned"\<close> and differs from the name of user u2 (Bob), and the update
  is accepted.
\<close>

theorem name_check_counterexample:
  "tb_assignedUserName body_upper = Some ''UNASSIGNED''
   \<and> ''UNASSIGNED'' \<noteq> ''unassigned''
   \<and> map_option u_name (User_findById ''u2'' store_b) = Some ''Bob''
   \<and> ''UNASSIGNED'' \<noteq> ''Bob''
   \<and> fst (tasks_id_put ''t1'' body_upper store_b) =
       Response 200 ''Task updated''
         (TaskDoc \<lparr>t_id = ''t1'', t_name = ''F'', description = [], deadline = ''d'',
                    completed = False, assignedUser = ''u2'', assignedUserName = ''Bob''\<rparr>)"
  by code_simp

text \<open>
  C8, amended. For a PUT /tasks/:id that passes the earlier checks (name and
  deadline given, the task exists and is not completed, \<open>assignedUser\<close> resolves to a
  user) and supplies a text \<open>assignedUserName\<close>: the update is rejected with 400
  "assignedUserName does not match user record", the store unchanged, exactly
  when the name in lower case is not \<open>unassigned\<close> and the name differs from the
  user's; otherwise it is accepted with 200.
\<close>

theorem name_check_is_case_insensitive:
  assumes "given (tb_name body)" "given (tb_deadline body)"
    and "Task_findById tid s = Some t" "\<not> completed t"
    and "tb_assignedUser body = Some U" "U \<noteq> []" "User_findById U s = Some u"
    and "tb_assignedUserName body = Some n"
  shows "(tasks_id_put tid body s =
            (Response 400 ''assignedUserName does not match user record'' Empty, s)
          \<longleftrightarrow> toLowerCase n \<noteq> ''unassigned'' \<and> n \<noteq> u_name u)
       \<and> ((\<exists>doc. fst (tasks_id_put tid body s) = Response 200 ''Task updated'' (TaskDoc doc))
          \<longleftrightarrow> toLowerCase n = ''unassigned'' \<or> n = u_name u)"
proof -
  from assms(5,6) have gU: "given (tb_assignedUser body)"
    by (simp add: given_def)
  show ?thesis
  proof (cases "toLowerCase n \<noteq> ''unassigned'' \<and> n \<noteq> u_name u")
    case True
    with assms gU have "tasks_id_put tid body s =
            (Response 400 ''assignedUserName does not match user record'' Empty, s)"
      by (simp add: tasks_id_put_def Let_def sendResponse_def)
    with True show ?thesis by auto
  next
    case False
    with assms gU have "\<exists>task. tasks_id_put tid body s = tasks_put_cascade (assignedUser t) task s"
      by (auto simp: tasks_id_put_def Let_def)
    then obtain task where "tasks_id_put tid body s = tasks_put_cascade (assignedUser t) task s"
      by blast
    then have "fst (tasks_id_put tid body s) = Response 200 ''Task updated'' (TaskDoc task)"
      by (simp add: tasks_put_cascade_fst)
    with False show ?thesis by (auto simp: prod_eq_iff)
  qed
qed

theorem name_check_is_case_insensitive_witness:
  "tasks_id_put ''t1'' body_wrong_name store_b =
     (Response 400 ''assignedUserName does not match user record'' Empty, store_b)
   \<and> toLowerCase ''Ann'' \<noteq> ''unassigned'' \<and> ''Ann'' \<noteq> ''Bob''
   \<and> (\<exists>doc. fst (tasks_id_put ''t1'' body_upper store_b) =
          Response 200 ''Task updated'' (TaskDoc doc))
   \<and> toLowerCase ''UNASSIGNED'' = ''unassigned''"
proof -
  let ?t1 = "\<lparr>t_id = ''t1'', t_name = ''A'', description = [], deadline = ''d'',
               completed = False, assignedUser = ''u1'', assignedUserName = ''Ann''\<rparr>"
  let ?u2 = "\<lparr>u_id = ''u2'', u_name = ''Bob'', email = ''bob@x'', pendingTasks = [''t3'']\<rparr>"
  have f: "Task_findById ''t1'' store_b = Some ?t1" "\<not> completed ?t1" "''u2'' \<noteq> []"
    "User_findById ''u2'' store_b = Some ?u2"
    by (simp_all add: Task_findById_def User_findById_def store_b_def)
  have w: "given (tb_name body_wrong_name)" "given (tb_deadline body_wrong_name)"
    "tb_assignedUser body_wrong_name = Some ''u2''"
    "tb_assignedUserName body_wrong_name = Some ''Ann''"
    by (simp_all add: body_wrong_name_def given_def)
  have u: "given (tb_name body_upper)" "given (tb_deadline body_upper)"
    "tb_assignedUser body_upper = Some ''u2''"
    "tb_assignedUserName body_upper = Some ''UNASSIGNED''"
    by (simp_all add: body_upper_def given_def)
  have l: "toLowerCase ''Ann'' \<noteq> ''unassigned''" "''Ann'' \<noteq> ''Bob''"
    "toLowerCase ''UNASSIGNED'' = ''unassigned''"
    by (simp_all add: toLowerCase_def lower_char_def)
  from name_check_is_case_insensitive [OF w(1,2) f(1,2) w(3) f(3,4) w(4)]
    name_check_is_case_insensitive [OF u(1,2) f(1,2) u(3) f(3,4) u(4)] l
  show ?thesis by simp
qed

subsection \<open>Malformed query parameters\<close>

text \<open>
  C9, as the claim states it, fails on a parameter that is present and empty
  (\<open>?where=\<close>): the empty text is not valid JSON, yet \<open>parseJSONParam\<close> returns
  \<open>undefined\<close> for it, and the list endpoint answers 200 with the unfiltered query.
\<close>

theorem empty_parameter_counterexample:
  "q_where query_empty_where = Some []
   \<and> parse_braces_only [] = None
   \<and> parseJSONParam parse_braces_only (Some []) = None
   \<and> users_get parse_braces_only (\<lambda>raw. None) (\<lambda>opts docs. JArr []) (\<lambda>flt docs. length docs)
         query_empty_where store_b = Response 200 ''OK'' (Docs (JArr []))"
  by code_simp

text \<open>
  C9, amended. For a parameter value that is present, not empty and not valid
  JSON, \<open>parseJSONParam\<close> returns the parse-error marker (a value, not an
  exception). GET /users and GET /tasks answer 400 "Invalid JSON in where
  parameter" when \<open>where\<close> is such a value; "... sort ..." when \<open>where\<close> decodes
  without the marker and \<open>sort\<close> is such a value; "... select ..." when \<open>where\<close> and
  \<open>sort\<close> decode without the marker and \<open>select\<close> is such a value. The answer is
  the same for every store and every query engine: the store is not asked. A
  parameter that is present and empty is treated as an absent one: the parser
  returns \<open>undefined\<close> for both, and both endpoints answer a query with an empty
  \<open>where\<close>, \<open>sort\<close> or \<open>select\<close> as they answer the query without it.
\<close>

theorem invalid_json_is_reported:
  "(raw \<noteq> [] \<and> JSON_parse raw = None \<longrightarrow>
      parseJSONParam JSON_parse (Some raw) = Some parse_error_marker
      \<and> has_parseError (Some parse_error_marker))
   \<and> ((\<exists>raw. q_where q = Some raw \<and> raw \<noteq> [] \<and> JSON_parse raw = None) \<longrightarrow>
      users_get JSON_parse parseInt find_users count_users q s =
        Response 400 ''Invalid JSON in where parameter'' Empty
      \<and> tasks_get JSON_parse parseInt find_tasks count_tasks q s =
        Response 400 ''Invalid JSON in where parameter'' Empty)
   \<and> (\<not> has_parseError (parseJSONParam JSON_parse (q_where q))
      \<and> (\<exists>raw. q_sort q = Some raw \<and> raw \<noteq> [] \<and> JSON_parse raw = None) \<longrightarrow>
      users_get JSON_parse parseInt find_users count_users q s =
        Response 400 ''Invalid JSON in sort parameter'' Empty
      \<and> tasks_get JSON_parse parseInt find_tasks count_tasks q s =
        Response 400 ''Invalid JSON in sort parameter'' Empty)
   \<and> (\<not> has_parseError (parseJSONParam JSON_parse (q_where q))
      \<and> \<not> has_parseError (parseJSONParam JSON_parse (q_sort q))
      \<and> (\<exists>raw. q_select q = Some raw \<and> raw \<noteq> [] \<and> JSON_parse raw = None) \<longrightarrow>
      users_get JSON_parse parseInt find_users count_users q s =
        Response 400 ''Invalid JSON in select parameter'' Empty
      \<and> tasks_get JSON_parse parseInt find_tasks count_tasks q s =
        Response 400 ''Invalid JSON in select parameter'' Empty)
   \<and> parseJSONParam JSON_parse (Some []) = None
   \<and> parseJSONParam JSON_parse None = None
   \<and> users_get JSON_parse parseInt find_users count_users (q\<lparr>q_where := Some []\<rparr>) s =
       users_get JSON_parse parseInt find_users count_users (q\<lparr>q_where := None\<rparr>) s
   \<and> users_get JSON_parse parseInt find_users count_users (q\<lparr>q_sort := Some []\<rparr>) s =
       users_get JSON_parse parseInt find_users count_users (q\<lparr>q_sort := None\<rparr>) s
   \<and> users_get JSON_parse parseInt find_users count_users (q\<lparr>q_select := Some []\<rparr>) s =
       users_get JSON_parse parseInt find_users count_users (q\<lparr>q_select := None\<rparr>) s
   \<and> tasks_get JSON_parse parseInt find_tasks count_tasks (q\<lparr>q_where := Some []\<rparr>) s =
       tasks_get JSON_parse parseInt find_tasks count_tasks (q\<lparr>q_where := None\<rparr>) s
   \<and> tasks_get JSON_parse parseInt find_tasks count_tasks (q\<lparr>q_sort := Some []\<rparr>) s =
       tasks_get JSON_parse parseInt find_tasks count_tasks (q\<lparr>q_sort := None\<rparr>) s
   \<and> tasks_get JSON_parse parseInt find_tasks count_tasks (q\<lparr>q_select := Some []\<rparr>) s =
       tasks_get JSON_parse parseInt find_tasks count_tasks (q\<lparr>q_select := None\<rparr>) s"
proof -
  have marker: "has_parseError (Some parse_error_marker)"
    by (simp add: has_parseError_def parse_error_marker_def truthy_opt_def)
  have bad: "parseJSONParam JSON_parse (Some r) = Some parse_error_marker"
    if "r \<noteq> []" "JSON_parse r = None" for r
    using that by (simp add: parseJSONParam_def given_def)
  have bad': "has_parseError (parseJSONParam JSON_parse p)"
    if "\<exists>r. p = Some r \<and> r \<noteq> [] \<and> JSON_parse r = None" for p
    using that bad marker by auto
  have empty: "parseJSONParam JSON_parse (Some []) = None" "parseJSONParam JSON_parse None = None"
    by (simp_all add: parseJSONParam_def given_def)
  have absent_u: "users_get JSON_parse parseInt find_users count_users (q\<lparr>q_where := Some []\<rparr>) s =
       users_get JSON_parse parseInt find_users count_users (q\<lparr>q_where := None\<rparr>) s"
    "users_get JSON_parse parseInt find_users count_users (q\<lparr>q_sort := Some []\<rparr>) s =
       users_get JSON_parse parseInt find_users count_users (q\<lparr>q_sort := None\<rparr>) s"
    "users_get JSON_parse parseInt find_users count_users (q\<lparr>q_select := Some []\<rparr>) s =
       users_get JSON_parse parseInt find_users count_users (q\<lparr>q_select := None\<rparr>) s"
    by (simp_all add: users_get_def list_route_def empty Let_def)
  have absent_t: "tasks_get JSON_parse parseInt find_tasks count_tasks (q\<lparr>q_where := Some []\<rparr>) s =
       tasks_get JSON_parse parseInt find_tasks count_tasks (q\<lparr>q_where := None\<rparr>) s"
    "tasks_get JSON_parse parseInt find_tasks count_tasks (q\<lparr>q_sort := Some []\<rparr>) s =
       tasks_get JSON_parse parseInt find_tasks count_tasks (q\<lparr>q_sort := None\<rparr>) s"
    "tasks_get JSON_parse parseInt find_tasks count_tasks (q\<lparr>q_select := Some []\<rparr>) s =
       tasks_get JSON_parse parseInt find_tasks count_tasks (q\<lparr>q_select := None\<rparr>) s"
    by (simp_all add: tasks_get_def list_route_def empty Let_def)
  have reported: "(raw \<noteq> [] \<and> JSON_parse raw = None \<longrightarrow>
      parseJSONParam JSON_parse (Some raw) = Some parse_error_marker
      \<and> has_parseError (Some parse_error_marker))
   \<and> ((\<exists>raw. q_where q = Some raw \<and> raw \<noteq> [] \<and> JSON_parse raw = None) \<longrightarrow>
      users_get JSON_parse parseInt find_users count_users q s =
        Response 400 ''Invalid JSON in where parameter'' Empty
      \<and> tasks_get JSON_parse parseInt find_tasks count_tasks q s =
        Response 400 ''Invalid JSON in where parameter'' Empty)
   \<and> (\<not> has_parseError (parseJSONParam JSON_parse (q_where q))
      \<and> (\<exists>raw. q_sort q = Some raw \<and> raw \<noteq> [] \<and> JSON_parse raw = None) \<longrightarrow>
      users_get JSON_parse parseInt find_users count_users q s =
        Response 400 ''Invalid JSON in sort parameter'' Empty
      \<and> tasks_get JSON_parse parseInt find_tasks count_tasks q s =
        Response 400 ''Invalid JSON in sort parameter'' Empty)
   \<and> (\<not> has_parseError (parseJSONParam JSON_parse (q_where q))
      \<and> \<not> has_parseError (parseJSONParam JSON_parse (q_sort q))
      \<and> (\<exists>raw. q_select q = Some raw \<and> raw \<noteq> [] \<and> JSON_parse raw = None) \<longrightarrow>
      users_get JSON_parse parseInt find_users count_users q s =
        Response 400 ''Invalid JSON in select parameter'' Empty
      \<and> tasks_get JSON_parse parseInt find_tasks count_tasks q s =
        Response 400 ''Invalid JSON in select parameter'' Empty)"
    using marker bad bad'
    by (auto simp: users_get_def tasks_get_def list_route_def Let_def sendResponse_def)
  from reported empty absent_u absent_t show ?thesis
    by (intro conjI) blast+
qed

theorem invalid_json_is_reported_witness:
  "parseJSONParam parse_braces_only (Some ''{oops'') = Some parse_error_marker
   \<and> \<not> has_parseError (parseJSONParam parse_braces_only (q_where query_bad_sort))
   \<and> users_get parse_braces_only (\<lambda>raw. None) (\<lambda>opts docs. JArr []) (\<lambda>flt docs. length docs)
        query_bad_sort store_b = Response 400 ''Invalid JSON in sort parameter'' Empty
   \<and> tasks_get parse_braces_only (\<lambda>raw. None) (\<lambda>opts docs. JArr []) (\<lambda>flt docs. length docs)
        query_bad_sort store_b = Response 400 ''Invalid JSON in sort parameter'' Empty"
proof -
  have r: "''{oops'' \<noteq> [] \<and> parse_braces_only ''{oops'' = None"
    by (simp add: parse_braces_only_def)
  have w: "\<not> has_parseError (parseJSONParam parse_braces_only (q_where query_bad_sort))"
    by (simp add: query_bad_sort_def parseJSONParam_def given_def parse_braces_only_def
        has_parseError_def truthy_opt_def)
  have srt: "\<exists>raw. q_sort query_bad_sort = Some raw \<and> raw \<noteq> [] \<and> parse_braces_only raw = None"
    by (simp add: query_bad_sort_def parse_braces_only_def)
  note th = invalid_json_is_reported [where raw = "''{oops''" and JSON_parse = parse_braces_only
      and q = query_bad_sort and s = store_b and parseInt = "\<lambda>raw. None"
      and find_users = "\<lambda>opts docs. JArr []" and count_users = "\<lambda>flt docs. length docs"
      and find_tasks = "\<lambda>opts docs. JArr []" and count_tasks = "\<lambda>flt docs. length docs"]
  from th r w srt show ?thesis by blast
qed

subsection \<open>PUT /users/:id\<close>

lemma User_save_Inr:
  assumes "User_save doc s = Inr s1"
  shows "tasks s1 = tasks s"
    and "users s1 = update_first (\<lambda>u. u_id u = u_id doc) (\<lambda>u. doc) (users s)"
    and "User_findById j s1 =
           (if j = u_id doc then map_option (\<lambda>u. doc) (User_findById j s) else User_findById j s)"
    and "Task_findById x s1 = Task_findById x s"
    and "writes s1 = writes s @ [UserSave (u_id doc)]"
proof -
  from assms have s1: "s1 = s\<lparr>users := update_first (\<lambda>u. u_id u = u_id doc) (\<lambda>u. doc) (users s),
                  writes := writes s @ [UserSave (u_id doc)]\<rparr>"
    by (auto simp: User_save_def split: if_splits)
  show "tasks s1 = tasks s"
    "users s1 = update_first (\<lambda>u. u_id u = u_id doc) (\<lambda>u. doc) (users s)"
    "Task_findById x s1 = Task_findById x s" "writes s1 = writes s @ [UserSave (u_id doc)]"
    by (simp_all add: s1 Task_findById_def)
  show "User_findById j s1 =
           (if j = u_id doc then map_option (\<lambda>u. doc) (User_findById j s) else User_findById j s)"
    by (simp add: s1 User_findById_def find_update_first)
qed

lemma release_from_previous_tasks [store_simps]:
  "tasks (release_from_previous uid ts s) = tasks s"
  by (induction uid ts s rule: release_from_previous.induct) (simp_all add: Let_def store_simps)

lemma Task_findById_release [store_simps]:
  "Task_findById x (release_from_previous uid ts s) = Task_findById x s"
  by (simp add: Task_findById_def store_simps)

lemma release_from_previous_self [store_simps]:
  "User_findById uid (release_from_previous uid ts s) = User_findById uid s"
  by (induction uid ts s rule: release_from_previous.induct) (simp_all add: Let_def store_simps)

lemma release_from_previous_user:
  "User_findById j s = Some u \<Longrightarrow>
     \<exists>p'. User_findById j (release_from_previous uid ts s) = Some (u\<lparr>pendingTasks := p'\<rparr>)
        \<and> set p' = set (pendingTasks u) -
             {x. \<exists>t \<in> set ts. t_id t = x \<and> \<not> completed t \<and> assignedUser t = j \<and> j \<noteq> uid \<and> j \<noteq> []}
        \<and> (distinct (pendingTasks u) \<longrightarrow> distinct p')"
proof (induction uid ts s arbitrary: u rule: release_from_previous.induct)
  case (1 uid s)
  then show ?case
    by (intro exI [of _ "pendingTasks u"]) simp
next
  case (2 uid t ts s)
  show ?case
  proof (cases "completed t \<or> assignedUser t = [] \<or> assignedUser t = uid")
    case True
    with 2(1) [OF refl True 2(3)] obtain p' where
      p': "User_findById j (release_from_previous uid ts s) = Some (u\<lparr>pendingTasks := p'\<rparr>)"
        "set p' = set (pendingTasks u) -
             {x. \<exists>t \<in> set ts. t_id t = x \<and> \<not> completed t \<and> assignedUser t = j \<and> j \<noteq> uid \<and> j \<noteq> []}"
        "distinct (pendingTasks u) \<longrightarrow> distinct p'"
      by blast
    from True p' show ?thesis
      by (intro exI [of _ p']) (auto simp: Let_def)
  next
    case False
    let ?s1 = "normalizePendingTasksForUser (assignedUser t)
                 (User_updateOne (assignedUser t) (pull_pendingTasks (t_id t)) s)"
    define u1 where "u1 = (if j = assignedUser t
       then u\<lparr>pendingTasks := dedup_first_occurrence (removeAll (t_id t) (pendingTasks u))\<rparr>
       else u)"
    have f1: "User_findById j ?s1 = Some u1"
      using 2(3) by (auto simp: store_simps u1_def pull_pendingTasks_def)
    from 2(2) [OF refl False f1] obtain p' where
      p': "User_findById j (release_from_previous uid ts ?s1) = Some (u1\<lparr>pendingTasks := p'\<rparr>)"
        "set p' = set (pendingTasks u1) -
             {x. \<exists>t \<in> set ts. t_id t = x \<and> \<not> completed t \<and> assignedUser t = j \<and> j \<noteq> uid \<and> j \<noteq> []}"
        "distinct (pendingTasks u1) \<longrightarrow> distinct p'"
      by blast
    have eq: "u1\<lparr>pendingTasks := p'\<rparr> = u\<lparr>pendingTasks := p'\<rparr>"
      by (simp add: u1_def)
    have d: "distinct (pendingTasks u) \<longrightarrow> distinct (pendingTasks u1)"
      by (simp add: u1_def)
    have st: "set (pendingTasks u1) =
                set (pendingTasks u) - (if j = assignedUser t then {t_id t} else {})"
      by (auto simp: u1_def)
    from False p' eq d st show ?thesis
      by (intro exI [of _ p']) (auto simp: Let_def)
  qed
qed

lemma map_key_update_first:
  "(\<And>x. key (f x) = key x) \<Longrightarrow> map key (update_first p f xs) = map key xs"
  by (induction xs) auto

lemma release_from_previous_ids [store_simps]:
  "map u_id (users (release_from_previous uid ts s)) = map u_id (users s)"
  by (induction uid ts s rule: release_from_previous.induct)
    (simp_all add: Let_def store_simps map_key_update_first)

lemma User_findById_None_iff: "User_findById j s = None \<longleftrightarrow> j \<notin> set (map u_id (users s))"
  by (simp add: User_findById_def find_None_key)

lemma release_from_previous_None:
  "User_findById j s = None \<Longrightarrow> User_findById j (release_from_previous uid ts s) = None"
  by (simp add: User_findById_None_iff release_from_previous_ids)

lemma users_put_cascade_fst:
  "fst (users_put_cascade prev user s1) =
     Response 200 ''User updated''
       (UserDoc (User_findById (u_id user) (snd (users_put_cascade prev user s1))))"
  by (simp add: users_put_cascade_def Let_def sendResponse_def)

lemma save_failed_not_200: "save_failed what err \<noteq> Response 200 msg d"
  by (simp add: save_failed_def sendResponse_def)

lemma users_put_check_None:
  "users_put_check user s = None \<longleftrightarrow>
     (\<forall>x \<in> set (pendingTasks user). x \<in> t_id ` set (tasks s))
     \<and> (\<forall>t \<in> set (tasks s). t_id t \<in> set (pendingTasks user) \<longrightarrow> \<not> completed t)"
  by (auto simp: users_put_check_def Let_def Task_find_in_def filter_empty_conv list_ex_iff)

lemma users_put_check_Some:
  "users_put_check user s = Some r \<Longrightarrow> \<exists>st m d. r = Response st m d \<and> (st = 400 \<or> st = 404)"
  by (auto simp: users_put_check_def Let_def sendResponse_def split: if_splits)

lemma users_put_save_200:
  assumes "users_put_save prev user s = (Response 200 msg d, s')"
  shows "\<exists>s1. User_save user s = Inr s1 \<and> s' = snd (users_put_cascade prev user s1)"
  using assms
  by (cases "User_save user s") (auto simp: users_put_save_def save_failed_not_200)

lemma those_map_None: "those (map f xs) = None \<longleftrightarrow> (\<exists>x \<in> set xs. f x = None)"
  by (induction xs) (auto split: option.splits)

lemma those_map_Some: "those (map f xs) = Some ys \<Longrightarrow> ys = map (\<lambda>x. the (f x)) xs"
  by (induction xs arbitrary: ys) (auto split: option.splits)

lemma requested_pending_array:
  "requested_pending (Some (JArr xs)) = None \<longleftrightarrow> (\<exists>x \<in> set xs. js_String x = None)"
  "requested_pending (Some (JArr xs)) = Some L \<Longrightarrow>
     set L = {y. \<exists>x \<in> set xs. js_String x = Some y} \<and> distinct L"
proof -
  show "requested_pending (Some (JArr xs)) = None \<longleftrightarrow> (\<exists>x \<in> set xs. js_String x = None)"
    by (simp add: requested_pending_def those_map_None)
  assume "requested_pending (Some (JArr xs)) = Some L"
  then obtain ys where ys: "those (map js_String xs) = Some ys" and L: "L = array_from_set ys"
    by (auto simp: requested_pending_def)
  from ys have all: "\<forall>x \<in> set xs. js_String x \<noteq> None"
    using those_map_None [of js_String xs] by auto
  from those_map_Some [OF ys] all have "set ys = {y. \<exists>x \<in> set xs. js_String x = Some y}"
    by force
  then show "set L = {y. \<exists>x \<in> set xs. js_String x = Some y} \<and> distinct L"
    by (simp add: L array_from_set_eq)
qed

lemma requested_pending_distinct:
  "requested_pending v = Some L \<Longrightarrow> distinct L"
  by (auto simp: requested_pending_def array_from_set_eq split: option.splits json.splits)

lemma users_id_put_unfold:
  assumes "given (ub_name body)" "given (ub_email body)" "emailContainsAt (the (ub_email body))"
    and "User_findById rid s = Some stored"
    and "requested_pending (ub_pendingTasks body) = Some L"
  shows "users_id_put rid body s =
           (case users_put_check
                   (stored\<lparr>u_name := the (ub_name body), email := the (ub_email body),
                      pendingTasks := L\<rparr>) s of
              Some r \<Rightarrow> (r, s)
            | None \<Rightarrow> users_put_save (pendingTasks stored)
                      (stored\<lparr>u_name := the (ub_name body), email := the (ub_email body),
                         pendingTasks := L\<rparr>) s)"
  using assms by (simp add: users_id_put_def Let_def)

lemma users_id_put_thrown:
  assumes "requested_pending (ub_pendingTasks body) = None"
  shows "snd (users_id_put rid body s) = s"
    and "\<exists>st m d. fst (users_id_put rid body s) = Response st m d
           \<and> (st = 400 \<or> st = 404 \<or> st = 500)"
    and "given (ub_name body) \<and> given (ub_email body) \<and> emailContainsAt (the (ub_email body))
         \<and> (\<exists>stored. User_findById rid s = Some stored) \<Longrightarrow>
         fst (users_id_put rid body s) = Response 500 ''Error updating user'' (Thrown TypeError)"
  using assms
  by (auto simp: users_id_put_def sendResponse_def split: option.splits)

lemma users_id_put_200:
  assumes "users_id_put rid body s = (Response 200 msg d, s')"
  shows "\<exists>stored s1 L.
           given (ub_name body) \<and> given (ub_email body) \<and> emailContainsAt (the (ub_email body))
         \<and> User_findById rid s = Some stored
         \<and> requested_pending (ub_pendingTasks body) = Some L
         \<and> (\<forall>x \<in> set L. x \<in> t_id ` set (tasks s))
         \<and> (\<forall>t \<in> set (tasks s). t_id t \<in> set L \<longrightarrow> \<not> completed t)
         \<and> User_save (stored\<lparr>u_name := the (ub_name body), email := the (ub_email body),
                          pendingTasks := L\<rparr>) s = Inr s1
         \<and> s' = snd (users_put_cascade (pendingTasks stored)
                        (stored\<lparr>u_name := the (ub_name body), email := the (ub_email body),
                           pendingTasks := L\<rparr>) s1)"
proof -
  have g: "given (ub_name body)" "given (ub_email body)" "emailContainsAt (the (ub_email body))"
    using assms by (auto simp: users_id_put_def sendResponse_def split: if_splits)
  obtain stored where stored: "User_findById rid s = Some stored"
    using assms g by (cases "User_findById rid s") (auto simp: users_id_put_def sendResponse_def)
  obtain L where L: "requested_pending (ub_pendingTasks body) = Some L"
    using assms users_id_put_thrown(3) [of body rid s] g stored
    by (cases "requested_pending (ub_pendingTasks body)") auto
  define user where "user = stored\<lparr>u_name := the (ub_name body), email := the (ub_email body),
                          pendingTasks := L\<rparr>"
  note unfold = users_id_put_unfold [OF g stored L, folded user_def]
  have chk: "users_put_check user s = None"
  proof (cases "users_put_check user s")
    case None
    then show ?thesis .
  next
    case (Some r)
    with assms unfold users_put_check_Some [OF Some] show ?thesis by auto
  qed
  with assms unfold have "users_put_save (pendingTasks stored) user s = (Response 200 msg d, s')"
    by simp
  from users_put_save_200 [OF this] obtain s1 where
    s1: "User_save user s = Inr s1" and s': "s' = snd (users_put_cascade (pendingTasks stored) user s1)"
    by blast
  have pL: "pendingTasks user = L"
    by (simp add: user_def)
  from chk have all_found: "\<forall>x \<in> set L. x \<in> t_id ` set (tasks s)"
    and none_completed: "\<forall>t \<in> set (tasks s). t_id t \<in> set L \<longrightarrow> \<not> completed t"
    unfolding users_put_check_None pL by blast+
  show ?thesis
    using g stored L all_found none_completed s1 s'
    unfolding user_def by blast
qed

lemma users_put_check_completed:
  assumes "\<exists>t \<in> set (tasks s). completed t \<and> t_id t \<in> set (pendingTasks user)"
    and "\<forall>x \<in> set (pendingTasks user). x \<in> t_id ` set (tasks s)"
  shows "users_put_check user s =
           Some (Response 400 ''Cannot assign completed tasks as pending'' Empty)"
proof -
  from assms(1) have ne: "pendingTasks user \<noteq> []"
    by auto
  from assms(2) have m: "filter (\<lambda>tid. tid \<notin> set (map t_id (Task_find_in (pendingTasks user) s)))
                           (pendingTasks user) = []"
    by (auto simp: filter_empty_conv Task_find_in_def)
  from assms(1) have c: "list_ex completed (Task_find_in (pendingTasks user) s)"
    by (auto simp: list_ex_iff Task_find_in_def)
  from ne m c show ?thesis
    by (simp add: users_put_check_def Let_def sendResponse_def)
qed

text \<open>A request that names a completed task, once the names are texts.\<close>

lemma users_id_put_completed:
  assumes L: "requested_pending (ub_pendingTasks body) = Some L"
    and c: "\<exists>t \<in> set (tasks s). completed t \<and> t_id t \<in> set L"
  shows "snd (users_id_put rid body s) = s"
    and "\<exists>st m d. fst (users_id_put rid body s) = Response st m d \<and> (st = 400 \<or> st = 404)"
    and "given (ub_name body) \<and> given (ub_email body) \<and> emailContainsAt (the (ub_email body))
         \<and> (\<exists>stored. User_findById rid s = Some stored)
         \<and> (\<forall>x \<in> set L. x \<in> t_id ` set (tasks s)) \<Longrightarrow>
         fst (users_id_put rid body s) =
           Response 400 ''Cannot assign completed tasks as pending'' Empty"
proof -
  have "snd (users_id_put rid body s) = s
       \<and> (\<exists>st m d. fst (users_id_put rid body s) = Response st m d \<and> (st = 400 \<or> st = 404))
       \<and> (given (ub_name body) \<and> given (ub_email body) \<and> emailContainsAt (the (ub_email body))
          \<and> (\<exists>stored. User_findById rid s = Some stored)
          \<and> (\<forall>x \<in> set L. x \<in> t_id ` set (tasks s))
          \<longrightarrow> fst (users_id_put rid body s) =
                Response 400 ''Cannot assign completed tasks as pending'' Empty)"
  proof (cases "given (ub_name body) \<and> given (ub_email body)
                \<and> emailContainsAt (the (ub_email body))")
    case False
    then show ?thesis
      by (auto simp: users_id_put_def sendResponse_def)
  next
    case g: True
    show ?thesis
    proof (cases "User_findById rid s")
      case None
      with g show ?thesis
        by (simp add: users_id_put_def sendResponse_def)
    next
      case (Some stored)
      define user where "user = stored\<lparr>u_name := the (ub_name body), email := the (ub_email body),
                            pendingTasks := L\<rparr>"
      have pL: "pendingTasks user = L"
        by (simp add: user_def)
      from g have g': "given (ub_name body)" "given (ub_email body)"
        "emailContainsAt (the (ub_email body))"
        by simp_all
      note unfold = users_id_put_unfold [OF g' Some L, folded user_def]
      from c have "users_put_check user s \<noteq> None"
        unfolding users_put_check_None pL by blast
      then obtain r where r: "users_put_check user s = Some r"
        by blast
      from users_put_check_Some [OF r] r unfold have
        a: "snd (users_id_put rid body s) = s"
        and b: "\<exists>st m d. fst (users_id_put rid body s) = Response st m d \<and> (st = 400 \<or> st = 404)"
        by auto
      have d: "fst (users_id_put rid body s) =
                  Response 400 ''Cannot assign completed tasks as pending'' Empty"
        if "\<forall>x \<in> set L. x \<in> t_id ` set (tasks s)"
        using users_put_check_completed [of s user] c that unfold by (simp add: pL)
      from a b d show ?thesis by blast
    qed
  qed
  then show "snd (users_id_put rid body s) = s"
    and "\<exists>st m d. fst (users_id_put rid body s) = Response st m d \<and> (st = 400 \<or> st = 404)"
    and "given (ub_name body) \<and> given (ub_email body) \<and> emailContainsAt (the (ub_email body))
         \<and> (\<exists>stored. User_findById rid s = Some stored)
         \<and> (\<forall>x \<in> set L. x \<in> t_id ` set (tasks s)) \<Longrightarrow>
         fst (users_id_put rid body s) =
           Response 400 ''Cannot assign completed tasks as pending'' Empty"
    by blast+
qed

subsection \<open>A user update that names a completed task\<close>

text \<open>
  C2, as the claim states it, fails in two ways. When the list also names a task
  that does not exist, the missing-task check comes first and the answer is 404
  "One or more tasks not found" (t4 is completed; no task has the id zz). When
  the list also holds an object with an own \<open>toString\<close> key, \<open>String\<close> throws
  before any check and the \<open>catch\<close> answers 500 "Error updating user".
\<close>

theorem completed_and_missing_counterexample:
  "requested_pending (ub_pendingTasks body_completed_and_missing) = Some [''t4'', ''zz'']
   \<and> map_option completed (Task_findById ''t4'' store_b) = Some True
   \<and> users_id_put ''u1'' body_completed_and_missing store_b =
       (Response 404 ''One or more tasks not found'' (Missing [''zz'']), store_b)
   \<and> ub_pendingTasks body_completed_and_unprintable =
       Some (JArr [JStr ''t4'', JObj [(''toString'', JNum ''1'')]])
   \<and> js_String (JStr ''t4'') = Some ''t4''
   \<and> users_id_put ''u1'' body_completed_and_unprintable store_b =
       (Response 500 ''Error updating user'' (Thrown TypeError), store_b)"
  by code_simp

text \<open>
  C2, amended. A PUT /users/:id whose \<open>pendingTasks\<close> array holds an element
  whose text is the id of an existing completed task never succeeds and never
  writes: the answer is a 400, a 404 or a 500 and the store (the user record and
  the write log with it) is unchanged. It is a 400 or a 404 when every element
  of the array converts to text. When the request passes the earlier checks
  (name and email given, the email has an \<open>@\<close>, the user exists), the answer is
  500 "Error updating user" if some element does not convert to text, and 400
  "Cannot assign completed tasks as pending" if every element is the id of an
  existing task.
\<close>

theorem completed_task_rejects_user_update:
  assumes arr: "ub_pendingTasks body = Some (JArr xs)"
    and c: "\<exists>t \<in> set (tasks s). completed t \<and> Some (t_id t) \<in> set (map js_String xs)"
  shows "snd (users_id_put rid body s) = s
       \<and> (\<exists>st m d. fst (users_id_put rid body s) = Response st m d
              \<and> (st = 400 \<or> st = 404 \<or> st = 500)
              \<and> ((\<forall>x \<in> set xs. js_String x \<noteq> None) \<longrightarrow> st = 400 \<or> st = 404))
       \<and> (given (ub_name body) \<and> given (ub_email body) \<and> emailContainsAt (the (ub_email body))
          \<and> (\<exists>stored. User_findById rid s = Some stored)
          \<and> (\<exists>x \<in> set xs. js_String x = None)
          \<longrightarrow> fst (users_id_put rid body s) =
                Response 500 ''Error updating user'' (Thrown TypeError))
       \<and> (given (ub_name body) \<and> given (ub_email body) \<and> emailContainsAt (the (ub_email body))
          \<and> (\<exists>stored. User_findById rid s = Some stored)
          \<and> (\<forall>x \<in> set xs. \<exists>t \<in> set (tasks s). js_String x = Some (t_id t))
          \<longrightarrow> fst (users_id_put rid body s) =
                Response 400 ''Cannot assign completed tasks as pending'' Empty)"
proof (cases "requested_pending (ub_pendingTasks body)")
  case None
  then have thrown: "\<exists>x \<in> set xs. js_String x = None"
    using requested_pending_array(1) [of xs] arr by simp
  note r = users_id_put_thrown [OF None, of rid s]
  from r(2) thrown have b: "\<exists>st m d. fst (users_id_put rid body s) = Response st m d
              \<and> (st = 400 \<or> st = 404 \<or> st = 500)
              \<and> ((\<forall>x \<in> set xs. js_String x \<noteq> None) \<longrightarrow> st = 400 \<or> st = 404)"
    by blast
  from thrown have e: "\<not> (\<forall>x \<in> set xs. \<exists>t \<in> set (tasks s). js_String x = Some (t_id t))"
    by force
  from r(1) b r(3) e show ?thesis
    by blast
next
  case (Some L)
  then have all: "\<forall>x \<in> set xs. js_String x \<noteq> None"
    using requested_pending_array(1) [of xs] arr by auto
  from Some arr have setL: "set L = {y. \<exists>x \<in> set xs. js_String x = Some y}"
    using requested_pending_array(2) [of xs L] by simp
  from c have c': "\<exists>t \<in> set (tasks s). completed t \<and> t_id t \<in> set L"
    unfolding setL by (force simp: image_iff)
  note r = users_id_put_completed [OF Some c', of rid]
  have found: "\<forall>x \<in> set L. x \<in> t_id ` set (tasks s)"
    if "\<forall>x \<in> set xs. \<exists>t \<in> set (tasks s). js_String x = Some (t_id t)"
    using that unfolding setL by force
  from r(1) r(2) all have a: "snd (users_id_put rid body s) = s"
    and b: "\<exists>st m d. fst (users_id_put rid body s) = Response st m d
              \<and> (st = 400 \<or> st = 404 \<or> st = 500)
              \<and> ((\<forall>x \<in> set xs. js_String x \<noteq> None) \<longrightarrow> st = 400 \<or> st = 404)"
    by auto
  from all have e: "\<not> (\<exists>x \<in> set xs. js_String x = None)"
    by simp
  from r(3) found have d: "given (ub_name body) \<and> given (ub_email body)
          \<and> emailContainsAt (the (ub_email body))
          \<and> (\<exists>stored. User_findById rid s = Some stored)
          \<and> (\<forall>x \<in> set xs. \<exists>t \<in> set (tasks s). js_String x = Some (t_id t))
          \<longrightarrow> fst (users_id_put rid body s) =
                Response 400 ''Cannot assign completed tasks as pending'' Empty"
    by blast
  from a b d e show ?thesis
    by blast
qed

theorem completed_task_rejects_user_update_witness:
  "ub_pendingTasks body_completed_and_open = Some (JArr [JStr ''t1'', JStr ''t4'', JStr ''t1''])
   \<and> map_option completed (Task_findById ''t4'' store_b) = Some True
   \<and> snd (users_id_put ''u1'' body_completed_and_open store_b) = store_b
   \<and> fst (users_id_put ''u1'' body_completed_and_open store_b) =
       Response 400 ''Cannot assign completed tasks as pending'' Empty"
proof -
  have arr: "ub_pendingTasks body_completed_and_open =
               Some (JArr [JStr ''t1'', JStr ''t4'', JStr ''t1''])"
    by (simp add: body_completed_and_open_def)
  have c: "map_option completed (Task_findById ''t4'' store_b) = Some True"
    by code_simp
  have h: "\<exists>t \<in> set (tasks store_b).
             completed t \<and> Some (t_id t) \<in> set (map js_String [JStr ''t1'', JStr ''t4'', JStr ''t1''])"
    by (simp add: store_b_def)
  have g: "given (ub_name body_completed_and_open) \<and> given (ub_email body_completed_and_open)
          \<and> emailContainsAt (the (ub_email body_completed_and_open))
          \<and> (\<exists>stored. User_findById ''u1'' store_b = Some stored)
          \<and> (\<forall>x \<in> set [JStr ''t1'', JStr ''t4'', JStr ''t1''].
                \<exists>t \<in> set (tasks store_b). js_String x = Some (t_id t))"
    by (simp add: body_completed_and_open_def given_def emailContainsAt_def User_findById_def
        store_b_def)
  from completed_task_rejects_user_update [OF arr h, of "''u1''"] g arr c
  show ?thesis by blast
qed

text \<open>The state after the block under \<open>if (user.pendingTasks.length)\<close>, or after
  skipping it, for the user document \<open>user\<close> that the save has just stored.\<close>

lemma assign_pending_unfold:
  assumes "found = Task_find_in (pendingTasks user) s1"
    and "inc = map t_id (filter (\<lambda>t. \<not> completed t) found)"
  shows "assign_pending user s1 =
           (if inc \<noteq> []
            then User_updateOne (u_id user) (set_pendingTasks inc)
                   (Task_updateMany (\<lambda>t. t_id t \<in> set inc)
                      (\<lambda>t. t\<lparr>assignedUser := u_id user, assignedUserName := u_name user\<rparr>)
                      (release_from_previous (u_id user) found s1))
            else User_updateOne (u_id user) (set_pendingTasks [])
                   (release_from_previous (u_id user) found s1))"
  unfolding assms assign_pending_def Let_def by (rule refl)

lemma assign_block:
  assumes saved: "User_findById (u_id user) s1 = Some user"
    and found: "found = Task_find_in (pendingTasks user) s1"
    and inc: "inc = map t_id (filter (\<lambda>t. \<not> completed t) found)"
    and s2: "s2 = (if pendingTasks user \<noteq> [] then assign_pending user s1 else s1)"
  shows "tasks s2 =
           map (\<lambda>t. if t_id t \<in> set inc
                    then t\<lparr>assignedUser := u_id user, assignedUserName := u_name user\<rparr> else t)
             (tasks s1)"
    and "User_findById j s2 =
           (if j = u_id user then Some (user\<lparr>pendingTasks := inc\<rparr>)
            else User_findById j (release_from_previous (u_id user) found s1))"
    and "map u_id (users s2) = map u_id (users s1)"
proof -
  note ap = assign_pending_unfold [OF found inc]
  have empty: "inc = [] \<and> found = []" if "pendingTasks user = []"
    using that by (simp add: inc found Task_find_in_def)
  show "tasks s2 =
           map (\<lambda>t. if t_id t \<in> set inc
                    then t\<lparr>assignedUser := u_id user, assignedUserName := u_name user\<rparr> else t)
             (tasks s1)"
  proof (cases "pendingTasks user = []")
    case True
    with empty show ?thesis
      by (simp add: s2)
  next
    case False
    then show ?thesis
      by (cases "inc = []") (simp_all add: s2 ap store_simps)
  qed
  show "User_findById j s2 =
           (if j = u_id user then Some (user\<lparr>pendingTasks := inc\<rparr>)
            else User_findById j (release_from_previous (u_id user) found s1))"
  proof (cases "pendingTasks user = []")
    case True
    then have "user\<lparr>pendingTasks := []\<rparr> = user"
      by simp
    with True empty saved show ?thesis
      by (simp add: s2)
  next
    case False
    with saved show ?thesis
      by (cases "inc = []") (simp_all add: s2 ap store_simps set_pendingTasks_def)
  qed
  show "map u_id (users s2) = map u_id (users s1)"
    by (simp add: s2 ap store_simps map_key_update_first)
qed

lemma users_put_cascade_state:
  assumes saved: "User_findById (u_id user) s1 = Some user"
    and found: "found = Task_find_in (pendingTasks user) s1"
    and inc: "inc = map t_id (filter (\<lambda>t. \<not> completed t) found)"
    and removed: "removed = filter (\<lambda>t. t \<notin> set (pendingTasks user)) prev"
    and s': "s' = snd (users_put_cascade prev user s1)"
  shows "tasks s' =
           map (\<lambda>t. if assignedUser t = u_id user then t\<lparr>assignedUserName := u_name user\<rparr>
                    else t)
             (map (\<lambda>t. if t_id t \<in> set removed \<and> \<not> completed t then unassign t else t)
                (map (\<lambda>t. if t_id t \<in> set inc
                          then t\<lparr>assignedUser := u_id user, assignedUserName := u_name user\<rparr>
                          else t)
                   (tasks s1)))"
    and "User_findById j s' =
           (if j = u_id user then Some (user\<lparr>pendingTasks := dedup_first_occurrence inc\<rparr>)
            else User_findById j (release_from_previous (u_id user) found s1))"
    and "map u_id (users s') = map u_id (users s1)"
proof -
  define s2 where "s2 = (if pendingTasks user \<noteq> [] then assign_pending user s1 else s1)"
  define s3 where "s3 = (if removed \<noteq> []
                then Task_updateMany (\<lambda>t. t_id t \<in> set removed \<and> \<not> completed t) unassign s2
                else s2)"
  note blk = assign_block [OF saved found inc s2_def]
  have s'': "s' = normalizePendingTasksForUser (u_id user)
                  (Task_updateMany (\<lambda>t. assignedUser t = u_id user)
                     (\<lambda>t. t\<lparr>assignedUserName := u_name user\<rparr>) s3)"
    unfolding s' users_put_cascade_def Let_def s3_def s2_def removed by simp
  have t3: "tasks s3 = map (\<lambda>t. if t_id t \<in> set removed \<and> \<not> completed t then unassign t else t)
                          (tasks s2)"
    by (cases "removed = []") (simp_all add: s3_def store_simps)
  have u3: "users s3 = users s2"
    by (simp add: s3_def store_simps)
  show "tasks s' =
           map (\<lambda>t. if assignedUser t = u_id user then t\<lparr>assignedUserName := u_name user\<rparr>
                    else t)
             (map (\<lambda>t. if t_id t \<in> set removed \<and> \<not> completed t then unassign t else t)
                (map (\<lambda>t. if t_id t \<in> set inc
                          then t\<lparr>assignedUser := u_id user, assignedUserName := u_name user\<rparr>
                          else t)
                   (tasks s1)))"
    unfolding s'' by (simp only: store_simps t3 blk(1))
  have f3: "User_findById j s3 = User_findById j s2" for j
    by (simp add: User_findById_def u3)
  show "User_findById j s' =
           (if j = u_id user then Some (user\<lparr>pendingTasks := dedup_first_occurrence inc\<rparr>)
            else User_findById j (release_from_previous (u_id user) found s1))"
    unfolding s'' by (simp add: store_simps f3 blk(2))
  show "map u_id (users s') = map u_id (users s1)"
    unfolding s'' by (simp add: store_simps u3 blk(3) map_key_update_first)
qed

lemma users_id_put_saved:
  assumes "User_findById rid s = Some stored"
    and "User_save (stored\<lparr>u_name := n, email := e, pendingTasks := L\<rparr>) s = Inr s1"
  shows "User_findById (u_id (stored\<lparr>u_name := n, email := e, pendingTasks := L\<rparr>)) s1 =
           Some (stored\<lparr>u_name := n, email := e, pendingTasks := L\<rparr>)"
    and "u_id (stored\<lparr>u_name := n, email := e, pendingTasks := L\<rparr>) = rid"
proof -
  have id: "u_id stored = rid"
    using assms(1) by (rule User_findById_id)
  then show "u_id (stored\<lparr>u_name := n, email := e, pendingTasks := L\<rparr>) = rid"
    by simp
  show "User_findById (u_id (stored\<lparr>u_name := n, email := e, pendingTasks := L\<rparr>)) s1 =
           Some (stored\<lparr>u_name := n, email := e, pendingTasks := L\<rparr>)"
    using User_save_Inr(3) [OF assms(2), of rid] assms(1) id by simp
qed

subsection \<open>What a user update stores as pending\<close>

text \<open>
  C7, as the claim states it, fails: a referenced task that is completed is
  treated as an error. The update of u1 to the list t1, t4 (t4 completed) is
  answered with 400 and nothing is stored: u1 keeps t1, t2.
\<close>

theorem completed_not_dropped_counterexample:
  "requested_pending (ub_pendingTasks body_completed_and_open) = Some [''t1'', ''t4'']
   \<and> map_option completed (Task_findById ''t4'' store_b) = Some True
   \<and> users_id_put ''u1'' body_completed_and_open store_b =
       (Response 400 ''Cannot assign completed tasks as pending'' Empty, store_b)
   \<and> map_option pendingTasks (User_findById ''u1'' store_b) = Some [''t1'', ''t2'']"
  by code_simp

text \<open>
  C7, amended. The part of PUT /users/:id that runs after the save, on whatever
  store it finds with the user saved in it, answers 200 and leaves as the user's
  \<open>pendingTasks\<close> the ids of the referenced tasks that are not completed in that
  store, each once, in the order the store returns the tasks: the completed ones
  are dropped without an error. The handler as a whole, run on one store,
  treats a referenced task that is completed in that store as an error: when the
  requested list converts to texts and names such a task, the answer is a 400 or
  a 404 and nothing is stored. So when the handler answers 200, no referenced
  task was completed in the store it started from, and the user's resulting
  \<open>pendingTasks\<close> holds exactly the requested ids.
\<close>

theorem user_update_pending_subset:
  "(User_findById (u_id user) s1 = Some user \<longrightarrow>
      fst (users_put_cascade prev user s1) =
        Response 200 ''User updated''
          (UserDoc (Some (user\<lparr>pendingTasks :=
             dedup_first_occurrence
               (map t_id (filter (\<lambda>t. t_id t \<in> set (pendingTasks user) \<and> \<not> completed t)
                           (tasks s1)))\<rparr>)))
      \<and> User_findById (u_id user) (snd (users_put_cascade prev user s1)) =
          Some (user\<lparr>pendingTasks :=
             dedup_first_occurrence
               (map t_id (filter (\<lambda>t. t_id t \<in> set (pendingTasks user) \<and> \<not> completed t)
                           (tasks s1)))\<rparr>))
   \<and> (requested_pending (ub_pendingTasks body) = Some L
       \<and> (\<exists>t \<in> set (tasks s). completed t \<and> t_id t \<in> set L) \<longrightarrow>
        snd (users_id_put rid body s) = s
        \<and> (\<exists>st m d. fst (users_id_put rid body s) = Response st m d \<and> (st = 400 \<or> st = 404)))
   \<and> (users_id_put rid body s = (Response 200 msg d, s') \<longrightarrow>
        (\<exists>L u'. requested_pending (ub_pendingTasks body) = Some L
           \<and> (\<forall>t \<in> set (tasks s). t_id t \<in> set L \<longrightarrow> \<not> completed t)
           \<and> User_findById rid s' = Some u'
           \<and> pendingTasks u' =
               dedup_first_occurrence (map t_id (filter (\<lambda>t. t_id t \<in> set L) (tasks s)))
           \<and> set (pendingTasks u') = set L))"
proof (intro conjI impI)
  assume saved: "User_findById (u_id user) s1 = Some user"
  have inc: "map t_id (filter (\<lambda>t. \<not> completed t) (Task_find_in (pendingTasks user) s1)) =
               map t_id (filter (\<lambda>t. t_id t \<in> set (pendingTasks user) \<and> \<not> completed t)
                           (tasks s1))"
    by (simp add: Task_find_in_def)
  note st = users_put_cascade_state(2) [OF saved refl refl refl refl,
      where j = "u_id user" and prev = prev, unfolded inc]
  from st show u: "User_findById (u_id user) (snd (users_put_cascade prev user s1)) =
          Some (user\<lparr>pendingTasks :=
             dedup_first_occurrence
               (map t_id (filter (\<lambda>t. t_id t \<in> set (pendingTasks user) \<and> \<not> completed t)
                           (tasks s1)))\<rparr>)"
    by simp
  show "fst (users_put_cascade prev user s1) =
        Response 200 ''User updated''
          (UserDoc (Some (user\<lparr>pendingTasks :=
             dedup_first_occurrence
               (map t_id (filter (\<lambda>t. t_id t \<in> set (pendingTasks user) \<and> \<not> completed t)
                           (tasks s1)))\<rparr>)))"
    unfolding users_put_cascade_fst [of prev user s1] u by (rule refl)
next
  assume h: "requested_pending (ub_pendingTasks body) = Some L
       \<and> (\<exists>t \<in> set (tasks s). completed t \<and> t_id t \<in> set L)"
  then have L: "requested_pending (ub_pendingTasks body) = Some L"
    and c: "\<exists>t \<in> set (tasks s). completed t \<and> t_id t \<in> set L"
    by simp_all
  show "snd (users_id_put rid body s) = s"
    by (rule users_id_put_completed(1) [OF L c])
  show "\<exists>st m d. fst (users_id_put rid body s) = Response st m d \<and> (st = 400 \<or> st = 404)"
    by (rule users_id_put_completed(2) [OF L c])
next
  assume ok: "users_id_put rid body s = (Response 200 msg d, s')"
  from users_id_put_200 [OF ok] obtain stored s1 L where
    stored: "User_findById rid s = Some stored"
    and L: "requested_pending (ub_pendingTasks body) = Some L"
    and all_found: "\<forall>x \<in> set L. x \<in> t_id ` set (tasks s)"
    and none_completed: "\<forall>t \<in> set (tasks s). t_id t \<in> set L \<longrightarrow> \<not> completed t"
    and save: "User_save (stored\<lparr>u_name := the (ub_name body), email := the (ub_email body),
                          pendingTasks := L\<rparr>) s = Inr s1"
    and s': "s' = snd (users_put_cascade (pendingTasks stored)
                        (stored\<lparr>u_name := the (ub_name body), email := the (ub_email body),
                           pendingTasks := L\<rparr>) s1)"
    by blast
  let ?user = "stored\<lparr>u_name := the (ub_name body), email := the (ub_email body),
                 pendingTasks := L\<rparr>"
  note saved = users_id_put_saved [OF stored save]
  have ts: "tasks s1 = tasks s"
    by (rule User_save_Inr(1) [OF save])
  have inc: "map t_id (filter (\<lambda>t. \<not> completed t) (Task_find_in (pendingTasks ?user) s1)) =
               map t_id (filter (\<lambda>t. t_id t \<in> set L) (tasks s))"
  proof -
    have "filter (\<lambda>t. \<not> completed t) (filter (\<lambda>t. t_id t \<in> set L) (tasks s)) =
            filter (\<lambda>t. t_id t \<in> set L) (tasks s)"
      using none_completed by (intro filter_True) auto
    moreover have "pendingTasks ?user = L"
      by simp
    ultimately show ?thesis
      by (simp only: Task_find_in_def ts)
  qed
  note st = users_put_cascade_state(2) [OF saved(1) refl refl refl s', of rid, unfolded inc]
  have "User_findById rid s' =
          Some (?user\<lparr>pendingTasks := dedup_first_occurrence
                   (map t_id (filter (\<lambda>t. t_id t \<in> set L) (tasks s)))\<rparr>)"
    using st saved(2) by simp
  moreover have "set (map t_id (filter (\<lambda>t. t_id t \<in> set L) (tasks s))) = set L"
    using all_found by auto
  ultimately show "\<exists>L u'. requested_pending (ub_pendingTasks body) = Some L
           \<and> (\<forall>t \<in> set (tasks s). t_id t \<in> set L \<longrightarrow> \<not> completed t)
           \<and> User_findById rid s' = Some u'
           \<and> pendingTasks u' =
               dedup_first_occurrence (map t_id (filter (\<lambda>t. t_id t \<in> set L) (tasks s)))
           \<and> set (pendingTasks u') = set L"
    using none_completed L by simp
qed

theorem user_update_pending_subset_witness:
  "User_findById ''u1'' store_d = Some user_d
   \<and> pendingTasks user_d = [''t1'', ''t4'']
   \<and> map_option completed (Task_findById ''t4'' store_d) = Some True
   \<and> fst (users_put_cascade [''t1'', ''t2''] user_d store_d) =
       Response 200 ''User updated''
         (UserDoc (Some \<lparr>u_id = ''u1'', u_name = ''Ann'', email = ''ann@x'',
                          pendingTasks = [''t1'']\<rparr>))
   \<and> snd (users_id_put ''u1'' body_completed_and_open store_b) = store_b
   \<and> requested_pending (ub_pendingTasks body_take_three) = Some [''t3'', ''t1'']
   \<and> fst (users_id_put ''u1'' body_take_three store_b) =
       Response 200 ''User updated''
         (UserDoc (Some \<lparr>u_id = ''u1'', u_name = ''Ann'', email = ''ann@x'',
                          pendingTasks = [''t1'', ''t3'']\<rparr>))
   \<and> (\<exists>u'. User_findById ''u1'' (snd (users_id_put ''u1'' body_take_three store_b)) = Some u'
          \<and> pendingTasks u' = [''t1'', ''t3''])"
proof -
  have saved: "User_findById (u_id user_d) store_d = Some user_d"
    by code_simp
  have id: "u_id user_d = ''u1''" and p: "pendingTasks user_d = [''t1'', ''t4'']"
    by (simp_all add: user_d_def)
  have c: "map_option completed (Task_findById ''t4'' store_d) = Some True"
    by code_simp
  have sub: "user_d\<lparr>pendingTasks :=
               dedup_first_occurrence
                 (map t_id (filter (\<lambda>t. t_id t \<in> set (pendingTasks user_d) \<and> \<not> completed t)
                             (tasks store_d)))\<rparr> =
             \<lparr>u_id = ''u1'', u_name = ''Ann'', email = ''ann@x'', pendingTasks = [''t1'']\<rparr>"
    by (simp add: user_d_def store_d_def store_b_def)
  have L4: "requested_pending (ub_pendingTasks body_completed_and_open) = Some [''t1'', ''t4'']
          \<and> (\<exists>t \<in> set (tasks store_b). completed t \<and> t_id t \<in> set [''t1'', ''t4''])"
    by (simp add: body_completed_and_open_def requested_pending_def array_from_set_eq store_b_def)
  have L: "requested_pending (ub_pendingTasks body_take_three) = Some [''t3'', ''t1'']"
    by code_simp
  have e: "fst (users_id_put ''u1'' body_take_three store_b) =
       Response 200 ''User updated''
         (UserDoc (Some \<lparr>u_id = ''u1'', u_name = ''Ann'', email = ''ann@x'',
                          pendingTasks = [''t1'', ''t3'']\<rparr>))"
    by code_simp
  have h: "users_id_put ''u1'' body_take_three store_b =
       (Response 200 ''User updated''
         (UserDoc (Some \<lparr>u_id = ''u1'', u_name = ''Ann'', email = ''ann@x'',
                          pendingTasks = [''t1'', ''t3'']\<rparr>)),
        snd (users_id_put ''u1'' body_take_three store_b))"
    by (simp add: prod_eq_iff e)
  have v: "dedup_first_occurrence
             (map t_id (filter (\<lambda>t. t_id t \<in> set [''t3'', ''t1'']) (tasks store_b))) =
           [''t1'', ''t3'']"
    by (simp add: store_b_def)
  note a = user_update_pending_subset [where user = user_d and ?s1.0 = store_d
      and prev = "[''t1'', ''t2'']" and body = body_completed_and_open and s = store_b
      and L = "[''t1'', ''t4'']" and rid = "''u1''", THEN conjunct1, rule_format, OF saved,
      unfolded sub]
  note b = user_update_pending_subset [where body = body_completed_and_open and s = store_b
      and L = "[''t1'', ''t4'']" and rid = "''u1''", THEN conjunct2, THEN conjunct1,
      rule_format, OF L4]
  note k = user_update_pending_subset [where body = body_take_three and s = store_b
      and rid = "''u1''", THEN conjunct2, THEN conjunct2, rule_format, OF h]
  from k L v have k': "\<exists>u'. User_findById ''u1'' (snd (users_id_put ''u1'' body_take_three store_b)) = Some u'
          \<and> pendingTasks u' = [''t1'', ''t3'']"
    by auto
  from saved id p c a b L e k' show ?thesis
    by simp
qed

subsection \<open>A user update without a \<open>pendingTasks\<close> array\<close>

text \<open>
  C10. When a PUT /users/:id succeeds and the body's \<open>pendingTasks\<close> is absent or
  is not an array, the list is taken as empty: the user is saved, and ends, with
  \<open>pendingTasks = []\<close>; every task that was in the user's pending list and is
  not completed ends with \<open>assignedUser = ""\<close> and
  \<open>assignedUserName = "unassigned"\<close>; the other tasks are untouched, but for
  the refreshed name on the tasks still assigned to the user.
\<close>

theorem missing_pendingTasks_means_empty:
  assumes ok: "users_id_put rid body s = (Response 200 msg d, s')"
    and not_array: "\<forall>xs. ub_pendingTasks body \<noteq> Some (JArr xs)"
    and u: "User_findById rid s = Some u"
    and rid: "rid \<noteq> []"
  shows "requested_pending (ub_pendingTasks body) = Some []
       \<and> (\<exists>s1. User_save (u\<lparr>u_name := the (ub_name body), email := the (ub_email body),
                           pendingTasks := []\<rparr>) s = Inr s1)
       \<and> User_findById rid s' =
           Some (u\<lparr>u_name := the (ub_name body), email := the (ub_email body),
                   pendingTasks := []\<rparr>)
       \<and> tasks s' =
           map (\<lambda>t. if t_id t \<in> set (pendingTasks u) \<and> \<not> completed t
                    then t\<lparr>assignedUser := [], assignedUserName := ''unassigned''\<rparr>
                    else if assignedUser t = rid
                    then t\<lparr>assignedUserName := the (ub_name body)\<rparr>
                    else t)
             (tasks s)"
proof -
  have L: "requested_pending (ub_pendingTasks body) = Some []"
    using not_array
    by (auto simp: requested_pending_def split: option.splits json.splits)
  from users_id_put_200 [OF ok] u obtain s1 where
    save: "User_save (u\<lparr>u_name := the (ub_name body), email := the (ub_email body),
                          pendingTasks := []\<rparr>) s = Inr s1"
    and s': "s' = snd (users_put_cascade (pendingTasks u)
                        (u\<lparr>u_name := the (ub_name body), email := the (ub_email body),
                           pendingTasks := []\<rparr>) s1)"
    by (auto simp: L)
  let ?user = "u\<lparr>u_name := the (ub_name body), email := the (ub_email body),
                 pendingTasks := []\<rparr>"
  note saved = users_id_put_saved [OF u save]
  have ts: "tasks s1 = tasks s"
    by (rule User_save_Inr(1) [OF save])
  have found: "Task_find_in (pendingTasks ?user) s1 = []"
    by (simp add: Task_find_in_def)
  note st = users_put_cascade_state [OF saved(1) refl refl refl s', unfolded found]
  have user': "User_findById rid s' = Some ?user"
    using st(2) [of rid] saved(2) by simp
  have tasks': "tasks s' =
           map (\<lambda>t. if t_id t \<in> set (pendingTasks u) \<and> \<not> completed t
                    then t\<lparr>assignedUser := [], assignedUserName := ''unassigned''\<rparr>
                    else if assignedUser t = rid
                    then t\<lparr>assignedUserName := the (ub_name body)\<rparr>
                    else t)
             (tasks s)"
    using rid saved(2) by (simp add: st(1) ts unassign_def)
  from L save user' tasks' show ?thesis
    by blast
qed

theorem missing_pendingTasks_means_empty_witness:
  "fst (users_id_put ''u1'' body_no_array store_b) =
     Response 200 ''User updated''
       (UserDoc (Some \<lparr>u_id = ''u1'', u_name = ''Anna'', email = ''ann@x'', pendingTasks = []\<rparr>))
   \<and> User_findById ''u1'' (snd (users_id_put ''u1'' body_no_array store_b)) =
       Some \<lparr>u_id = ''u1'', u_name = ''Anna'', email = ''ann@x'', pendingTasks = []\<rparr>
   \<and> map (\<lambda>t. (t_id t, completed t, assignedUser t, assignedUserName t))
        (tasks (snd (users_id_put ''u1'' body_no_array store_b))) =
       [(''t1'', False, [], ''unassigned''), (''t2'', False, [], ''unassigned''),
        (''t3'', False, ''u2'', ''Bob''), (''t4'', True, ''u1'', ''Anna''),
        (''t5'', False, [], ''unassigned'')]"
proof -
  let ?u1 = "\<lparr>u_id = ''u1'', u_name = ''Ann'', email = ''ann@x'',
               pendingTasks = [''t1'', ''t2'']\<rparr>"
  have e: "fst (users_id_put ''u1'' body_no_array store_b) =
     Response 200 ''User updated''
       (UserDoc (Some \<lparr>u_id = ''u1'', u_name = ''Anna'', email = ''ann@x'', pendingTasks = []\<rparr>))"
    by code_simp
  have h: "users_id_put ''u1'' body_no_array store_b =
     (Response 200 ''User updated''
       (UserDoc (Some \<lparr>u_id = ''u1'', u_name = ''Anna'', email = ''ann@x'', pendingTasks = []\<rparr>)),
      snd (users_id_put ''u1'' body_no_array store_b))"
    by (simp add: prod_eq_iff e)
  have n: "\<forall>xs. ub_pendingTasks body_no_array \<noteq> Some (JArr xs)"
    by (simp add: body_no_array_def)
  have f: "User_findById ''u1'' store_b = Some ?u1" "''u1'' \<noteq> []"
    by (simp_all add: User_findById_def store_b_def)
  from missing_pendingTasks_means_empty [OF h n f] e
  show ?thesis by (simp add: store_b_def body_no_array_def)
qed

subsection \<open>The invariant, on what \<open>findById\<close> shows\<close>

lemma find_distinct_key:
  "distinct (map key xs) \<Longrightarrow> x \<in> set xs \<Longrightarrow> find (\<lambda>y. key y = key x) xs = Some x"
  by (induction xs) (auto simp: image_iff)

lemma User_findById_iff:
  "distinct (map u_id (users s)) \<Longrightarrow>
     User_findById i s = Some u \<longleftrightarrow> u \<in> set (users s) \<and> u_id u = i"
  using find_distinct_key [of u_id "users s" u] find_Some_key [of u_id i "users s" u]
  by (auto simp: User_findById_def)

lemma Task_findById_iff:
  "distinct (map t_id (tasks s)) \<Longrightarrow>
     Task_findById x s = Some t \<longleftrightarrow> t \<in> set (tasks s) \<and> t_id t = x"
  using find_distinct_key [of t_id "tasks s" t] find_Some_key [of t_id x "tasks s" t]
  by (auto simp: Task_findById_def)

lemma consistent_iff:
  "consistent s \<longleftrightarrow>
     distinct (map u_id (users s)) \<and> distinct (map t_id (tasks s))
     \<and> in_step (pending_of s) (state_of s)"
proof (cases "distinct (map u_id (users s)) \<and> distinct (map t_id (tasks s))")
  case False
  then show ?thesis by (auto simp: consistent_def)
next
  case True
  then have du: "distinct (map u_id (users s))" and dt: "distinct (map t_id (tasks s))"
    by simp_all
  note U = User_findById_iff [OF du]
  note T = Task_findById_iff [OF dt]
  have P: "pending_of s i = Some p \<longleftrightarrow> (\<exists>u \<in> set (users s). u_id u = i \<and> pendingTasks u = p)" for i p
    by (auto simp: pending_of_def U)
  have S: "state_of s x = Some (c, a) \<longleftrightarrow>
             (\<exists>t \<in> set (tasks s). t_id t = x \<and> completed t = c \<and> assignedUser t = a)" for x c a
    by (auto simp: state_of_def T)
  show ?thesis
    unfolding consistent_def in_step_def P S using True
    by (intro iffI conjI; clarsimp; blast)
qed

lemma consistent_pending_invariant:
  assumes "consistent s"
  shows "pending_invariant s"
proof -
  from assms have du: "distinct (map u_id (users s))" and dt: "distinct (map t_id (tasks s))"
    by (simp_all add: consistent_def)
  note U = User_findById_iff [OF du]
  have one: "case User_findById (assignedUser t) s of
               None \<Rightarrow> False
             | Some u \<Rightarrow> count_list (pendingTasks u) (t_id t) = 1"
    if t: "t \<in> set (tasks s)" and a: "assignedUser t \<noteq> []" "\<not> completed t" for t
  proof -
    from assms t a obtain u where u: "u \<in> set (users s)" "u_id u = assignedUser t"
      "t_id t \<in> set (pendingTasks u)"
      unfolding consistent_def by blast
    from assms u(1) have "distinct (pendingTasks u)"
      unfolding consistent_def by blast
    with u(3) have "count_list (pendingTasks u) (t_id t) = 1"
      by (simp add: count_list_distinct)
    moreover from u have "User_findById (assignedUser t) s = Some u"
      by (simp add: U)
    ultimately show ?thesis by simp
  qed
  have none: "t_id t \<notin> set (pendingTasks u)"
    if t: "t \<in> set (tasks s)" and c: "completed t \<or> assignedUser t = []"
      and u: "u \<in> set (users s)" for t u
  proof
    assume "t_id t \<in> set (pendingTasks u)"
    with assms u obtain t' where t': "t' \<in> set (tasks s)" "t_id t' = t_id t" "\<not> completed t'"
      "assignedUser t' = u_id u"
      unfolding consistent_def by blast
    from dt t t'(1,2) have "t' = t"
      by (auto simp: distinct_map inj_on_def)
    moreover from assms u have "u_id u \<noteq> []"
      unfolding consistent_def by blast
    ultimately show False
      using c t'(3,4) by simp
  qed
  from one none show ?thesis
    unfolding pending_invariant_def by blast
qed

subsection \<open>Steps that keep the invariant\<close>

lemma in_step_task_change:
  assumes ok: "in_step P T"
    and T': "T' = T(tid \<mapsto> (c, a))"
    and holder: "a \<noteq> [] \<and> \<not> c \<longrightarrow> P a \<noteq> None"
    and none: "\<And>i. P i = None \<Longrightarrow> P' i = None"
    and some: "\<And>i p. P i = Some p \<Longrightarrow>
                 \<exists>p'. P' i = Some p' \<and> distinct p'
                    \<and> set p' = (if i = a \<and> a \<noteq> [] \<and> \<not> c then insert tid (set p)
                                  else set p - {tid})"
  shows "in_step P' T'"
  unfolding in_step_def
proof (intro conjI allI impI)
  fix i p'
  assume p': "P' i = Some p'"
  with none obtain p where p: "P i = Some p"
    by (cases "P i") auto
  from some [OF p] p' have d: "distinct p'"
    and s: "set p' = (if i = a \<and> a \<noteq> [] \<and> \<not> c then insert tid (set p) else set p - {tid})"
    by auto
  from ok p have i: "i \<noteq> []" and old: "\<forall>x \<in> set p. T x = Some (False, i)"
    unfolding in_step_def by blast+
  show "i \<noteq> []" by (rule i)
  show "distinct p'" by (rule d)
  show "\<forall>x \<in> set p'. T' x = Some (False, i)"
    using s old by (auto simp: T' split: if_splits)
next
  fix x b
  assume x: "T' x = Some (False, b) \<and> b \<noteq> []"
  show "\<exists>p'. P' b = Some p' \<and> x \<in> set p'"
  proof (cases "x = tid")
    case True
    with x have cb: "c = False" "a = b"
      by (simp_all add: T')
    with x holder obtain p where p: "P b = Some p"
      by auto
    from some [OF p] cb x True show ?thesis
      by auto
  next
    case False
    with x have "T x = Some (False, b)"
      by (simp add: T')
    with ok x obtain p where p: "P b = Some p" "x \<in> set p"
      unfolding in_step_def by blast
    from some [OF p(1)] p(2) False show ?thesis
      by (auto split: if_splits)
  qed
qed

lemma in_step_task_gone:
  assumes ok: "in_step P T"
    and T': "T' = T(tid := None)"
    and none: "\<And>i. P i = None \<Longrightarrow> P' i = None"
    and some: "\<And>i p. P i = Some p \<Longrightarrow>
                 \<exists>p'. P' i = Some p' \<and> distinct p' \<and> set p' = set p - {tid}"
  shows "in_step P' T'"
  unfolding in_step_def
proof (intro conjI allI impI)
  fix i p'
  assume p': "P' i = Some p'"
  with none obtain p where p: "P i = Some p"
    by (cases "P i") auto
  from some [OF p] p' have d: "distinct p'" and s: "set p' = set p - {tid}"
    by auto
  from ok p have i: "i \<noteq> []" and old: "\<forall>x \<in> set p. T x = Some (False, i)"
    unfolding in_step_def by blast+
  show "i \<noteq> []" by (rule i)
  show "distinct p'" by (rule d)
  show "\<forall>x \<in> set p'. T' x = Some (False, i)"
    using s old by (auto simp: T')
next
  fix x b
  assume x: "T' x = Some (False, b) \<and> b \<noteq> []"
  then have ne: "x \<noteq> tid" and "T x = Some (False, b)"
    by (auto simp: T' split: if_splits)
  with ok x obtain p where p: "P b = Some p" "x \<in> set p"
    unfolding in_step_def by blast
  from some [OF p(1)] p(2) ne show "\<exists>p'. P' b = Some p' \<and> x \<in> set p'"
    by auto
qed

lemma in_step_user_new:
  assumes ok: "in_step P T" and fresh: "P nid = None" and ne: "nid \<noteq> []"
    and P': "P' = P(nid \<mapsto> [])"
  shows "in_step P' T"
  using ok fresh ne unfolding in_step_def P'
  by (auto split: if_splits) (metis option.distinct(1))

lemma in_step_user_gone:
  assumes ok: "in_step P T" and p: "P rid = Some p"
    and P': "P' = P(rid := None)"
    and T': "\<And>x. T' x = map_option (\<lambda>(c, a). if x \<in> set p then (c, []) else (c, a)) (T x)"
  shows "in_step P' T'"
  unfolding in_step_def
proof (intro conjI allI impI)
  fix i q
  assume q: "P' i = Some q"
  then have ir: "i \<noteq> rid" and q': "P i = Some q"
    by (auto simp: P' split: if_splits)
  from ok q' have i: "i \<noteq> []" and d: "distinct q" and old: "\<forall>x \<in> set q. T x = Some (False, i)"
    unfolding in_step_def by blast+
  from ok p have held: "\<forall>x \<in> set p. T x = Some (False, rid)"
    unfolding in_step_def by blast
  show "i \<noteq> []" by (rule i)
  show "distinct q" by (rule d)
  show "\<forall>x \<in> set q. T' x = Some (False, i)"
    using old held ir by (auto simp: T')
next
  fix x b
  assume x: "T' x = Some (False, b) \<and> b \<noteq> []"
  then have nx: "x \<notin> set p" and old: "T x = Some (False, b)"
    by (auto simp: T' split: if_splits)
  with ok x obtain q where q: "P b = Some q" "x \<in> set q"
    unfolding in_step_def by blast
  with p nx have "b \<noteq> rid"
    by auto
  with q show "\<exists>p'. P' b = Some p' \<and> x \<in> set p'"
    by (simp add: P')
qed

lemma in_step_user_put:
  assumes ok: "in_step P T" and prev: "P rid = Some prev"
    and L: "\<forall>x \<in> L. \<exists>a. T x = Some (False, a)"
    and T': "\<And>x. T' x = map_option (\<lambda>(c, a). if x \<in> L then (c, rid)
                                          else if x \<in> set prev \<and> \<not> c then (c, [])
                                          else (c, a)) (T x)"
    and own: "\<exists>p. P' rid = Some p \<and> distinct p \<and> set p = L"
    and none: "\<And>i. P i = None \<Longrightarrow> P' i = None"
    and some: "\<And>i p. i \<noteq> rid \<Longrightarrow> P i = Some p \<Longrightarrow>
                 \<exists>p'. P' i = Some p' \<and> distinct p'
                    \<and> set p' = set p - {x \<in> L. T x = Some (False, i)}"
  shows "in_step P' T'"
  unfolding in_step_def
proof (intro conjI allI impI)
  from ok prev have rid: "rid \<noteq> []" and held: "\<forall>x \<in> set prev. T x = Some (False, rid)"
    unfolding in_step_def by blast+
  fix i q
  assume q: "P' i = Some q"
  show "i \<noteq> []"
  proof (cases "i = rid")
    case True
    with rid show ?thesis by simp
  next
    case False
    from q none obtain p where "P i = Some p"
      by (cases "P i") auto
    with ok show ?thesis
      unfolding in_step_def by blast
  qed
  show "distinct q"
  proof (cases "i = rid")
    case True
    with own q show ?thesis by auto
  next
    case False
    from q none obtain p where "P i = Some p"
      by (cases "P i") auto
    from some [OF False this] q show ?thesis by auto
  qed
  show "\<forall>x \<in> set q. T' x = Some (False, i)"
  proof (cases "i = rid")
    case True
    with own q have sq: "set q = L" by auto
    show ?thesis
    proof
      fix x
      assume "x \<in> set q"
      with sq L obtain a where "T x = Some (False, a)" "x \<in> L"
        by blast
      with True show "T' x = Some (False, i)"
        by (simp add: T')
    qed
  next
    case False
    from q none obtain p where p: "P i = Some p"
      by (cases "P i") auto
    from some [OF False p] q have s: "set q = set p - {x \<in> L. T x = Some (False, i)}"
      by auto
    from ok p have old: "\<forall>x \<in> set p. T x = Some (False, i)"
      unfolding in_step_def by blast
    show ?thesis
    proof
      fix x
      assume "x \<in> set q"
      with s old have x: "T x = Some (False, i)" "x \<notin> L"
        by auto
      with held False have "x \<notin> set prev"
        by auto
      with x show "T' x = Some (False, i)"
        by (simp add: T')
    qed
  qed
next
  from ok prev have held: "\<forall>x \<in> set prev. T x = Some (False, rid)"
    unfolding in_step_def by blast
  fix x b
  assume x: "T' x = Some (False, b) \<and> b \<noteq> []"
  then obtain c a where ca: "T x = Some (c, a)"
    by (cases "T x") (auto simp: T')
  show "\<exists>p'. P' b = Some p' \<and> x \<in> set p'"
  proof (cases "x \<in> L")
    case True
    with x ca have "b = rid"
      by (simp add: T')
    with own True show ?thesis by auto
  next
    case False
    with x ca have nx: "\<not> (x \<in> set prev \<and> \<not> c)" and cb: "c = False" "a = b"
      by (auto simp: T' split: if_splits)
    with ca ok x obtain p where p: "P b = Some p" "x \<in> set p"
      unfolding in_step_def by blast
    have "b \<noteq> rid"
    proof
      assume "b = rid"
      with p prev have "x \<in> set prev" by simp
      with nx cb show False by simp
    qed
    from some [OF this p(1)] p(2) False show ?thesis
      by auto
  qed
qed

subsection \<open>Each handler keeps the invariant\<close>

lemma tasks_put_cascade_task_all:
  "Task_findById j (snd (tasks_put_cascade prev task s)) =
     (if j = t_id task then map_option (\<lambda>t. task) (Task_findById j s) else Task_findById j s)"
  by (simp add: tasks_put_cascade_def Let_def store_simps)

lemma map_key_replace_first:
  "map key (update_first (\<lambda>x. key x = key doc) (\<lambda>x. doc) xs) = map key xs"
  by (induction xs) auto

lemma tasks_put_cascade_ids:
  "map u_id (users (snd (tasks_put_cascade prev task s))) = map u_id (users s)"
  "map t_id (tasks (snd (tasks_put_cascade prev task s))) = map t_id (tasks s)"
  by (simp_all add: tasks_put_cascade_def Let_def store_simps map_key_update_first
      map_key_replace_first)

lemma tasks_id_put_consistent:
  assumes ok: "consistent s"
    and upd: "tasks_id_put tid body s = (Response 200 msg d, s')"
  shows "consistent s'"
proof -
  from tasks_id_put_success [OF upd] obtain t task where
    t: "Task_findById tid s = Some t" and nc: "\<not> completed t" and id: "t_id task = tid"
    and s': "s' = snd (tasks_put_cascade (assignedUser t) task s)"
    and holder: "assignedUser task = [] \<or> User_findById (assignedUser task) s \<noteq> None"
    by (auto split: if_splits)
  define prev where "prev = assignedUser t"
  define a where "a = assignedUser task"
  define c where "c = completed task"
  from ok have du: "distinct (map u_id (users s))" and dt: "distinct (map t_id (tasks s))"
    and step: "in_step (pending_of s) (state_of s)"
    by (simp_all add: consistent_iff)
  have T: "state_of s tid = Some (False, prev)"
    using t nc by (simp add: state_of_def prev_def)
  have T': "state_of s' = (state_of s)(tid \<mapsto> (c, a))"
    using t id by (auto simp: fun_eq_iff state_of_def s' tasks_put_cascade_task_all c_def a_def)
  have P': "pending_of s' i =
     map_option
       (\<lambda>p. let p1 = (if i = prev \<and> prev \<noteq> [] \<and> prev \<noteq> a
                        then dedup_first_occurrence (removeAll tid p) else p)
            in if i = a \<and> a \<noteq> []
               then dedup_first_occurrence
                      (if c then removeAll tid p1 else if tid \<in> set p1 then p1 else p1 @ [tid])
               else p1)
       (pending_of s i)" for i
    by (cases "User_findById i s")
      (simp_all add: pending_of_def s' tasks_put_cascade_user [OF id] prev_def a_def c_def Let_def)
  have some: "\<exists>p'. pending_of s' i = Some p' \<and> distinct p'
                \<and> set p' = (if i = a \<and> a \<noteq> [] \<and> \<not> c then insert tid (set p)
                              else set p - {tid})"
    if p: "pending_of s i = Some p" for i p
  proof -
    from step p have i: "i \<noteq> []" and dp: "distinct p"
      and held: "\<forall>x \<in> set p. state_of s x = Some (False, i)"
      unfolding in_step_def by blast+
    have only_prev: "tid \<in> set p \<Longrightarrow> i = prev"
      using held T by auto
    show ?thesis
    proof (cases "i = a \<and> a \<noteq> []")
      case True
      with p dp show ?thesis
        by (auto simp: P' Let_def)
    next
      case False
      show ?thesis
      proof (cases "i = prev \<and> prev \<noteq> [] \<and> prev \<noteq> a")
        case True
        with False p show ?thesis
          by (auto simp: P' Let_def)
      next
        case np: False
        with False only_prev i have "tid \<notin> set p"
          by auto
        with False np p dp show ?thesis
          by (auto simp: P' Let_def)
      qed
    qed
  qed
  have none: "pending_of s i = None \<Longrightarrow> pending_of s' i = None" for i
    by (simp add: P')
  have h: "a \<noteq> [] \<and> \<not> c \<longrightarrow> pending_of s a \<noteq> None"
    using holder by (auto simp: a_def pending_of_def)
  from in_step_task_change [OF step T' h none some]
  have "in_step (pending_of s') (state_of s')" .
  with du dt show ?thesis
    by (simp add: consistent_iff s' tasks_put_cascade_ids)
qed

lemma tasks_post_consistent:
  assumes ok: "consistent s"
    and crt: "tasks_post new_id body s = (Response 201 msg d, s')"
  shows "consistent s'"
proof -
  from tasks_post_success [OF crt] obtain task s1 where
    ins: "Task_insert task s = Inr s1" and id: "t_id task = new_id"
    and a_def': "assignedUser task = or_else (tb_assignedUser body) []"
    and holder: "given (tb_assignedUser body) \<longrightarrow>
                   (\<exists>doc. User_findById (the (tb_assignedUser body)) s = Some doc)"
    and s': "s' = (if assignedUser task \<noteq> [] \<and> \<not> completed task
                     then normalizePendingTasksForUser (assignedUser task)
                            (User_updateOne (assignedUser task)
                               (addToSet_pendingTasks new_id) s1)
                     else s1)"
    by blast
  define a where "a = assignedUser task"
  define c where "c = completed task"
  from ok have du: "distinct (map u_id (users s))" and dt: "distinct (map t_id (tasks s))"
    and step: "in_step (pending_of s) (state_of s)"
    by (simp_all add: consistent_iff)
  note I = Task_insert_Inr [OF ins]
  from ins have fresh: "new_id \<notin> t_id ` set (tasks s)"
    by (auto simp: Task_insert_def id split: if_splits)
  then have T: "state_of s new_id = None"
    by (simp add: state_of_def Task_findById_def find_None_key)
  have f1: "Task_findById x s1 =
              (case Task_findById x s of Some t \<Rightarrow> Some t
               | None \<Rightarrow> if x = new_id then Some task else None)" for x
    by (auto simp: Task_findById_def I(2) find_append id split: option.splits)
  have ts': "tasks s' = tasks s @ [task]" and us': "map u_id (users s') = map u_id (users s)"
    by (simp_all add: s' store_simps I map_key_update_first)
  have f': "Task_findById x s' = Task_findById x s1" for x
    by (simp add: Task_findById_def ts' I(2))
  have T': "state_of s' = (state_of s)(new_id \<mapsto> (c, a))"
    using T by (auto simp: fun_eq_iff state_of_def f' f1 c_def a_def split: option.splits)
  have P': "pending_of s' i =
              (if i = a \<and> a \<noteq> [] \<and> \<not> c
               then map_option (\<lambda>p. dedup_first_occurrence
                                      (if new_id \<in> set p then p else p @ [new_id]))
                      (pending_of s i)
               else pending_of s i)" for i
    by (cases "User_findById i s")
      (auto simp: pending_of_def s' store_simps I(4) a_def c_def addToSet_pendingTasks_def)
  have some: "\<exists>p'. pending_of s' i = Some p' \<and> distinct p'
                \<and> set p' = (if i = a \<and> a \<noteq> [] \<and> \<not> c then insert new_id (set p)
                              else set p - {new_id})"
    if p: "pending_of s i = Some p" for i p
  proof -
    from step p have dp: "distinct p" and held: "\<forall>x \<in> set p. state_of s x = Some (False, i)"
      unfolding in_step_def by blast+
    from held T have "new_id \<notin> set p"
      by auto
    with p dp show ?thesis
      by (auto simp: P')
  qed
  have none: "pending_of s i = None \<Longrightarrow> pending_of s' i = None" for i
    by (auto simp: P')
  have h: "a \<noteq> [] \<and> \<not> c \<longrightarrow> pending_of s a \<noteq> None"
    using holder a_def'
    by (cases "tb_assignedUser body") (auto simp: a_def pending_of_def given_def or_else_def)
  from in_step_task_change [OF step T' h none some]
  have "in_step (pending_of s') (state_of s')" .
  moreover from dt fresh have "distinct (map t_id (tasks s'))"
    by (simp add: ts' id)
  ultimately show ?thesis
    using du by (simp add: consistent_iff us')
qed

lemma set_delete_first: "set (delete_first p xs) \<subseteq> set xs"
  by (induction xs) auto

lemma distinct_delete_first:
  "distinct (map key xs) \<Longrightarrow> distinct (map key (delete_first p xs))"
proof (induction xs)
  case Nil
  then show ?case by simp
next
  case (Cons x xs)
  with set_delete_first [of p xs] show ?case
    by (auto simp: image_iff)
qed

lemma find_delete_first_same:
  "distinct (map key xs) \<Longrightarrow>
     find (\<lambda>x. key x = i) (delete_first (\<lambda>x. key x = i) xs) = None"
proof (induction xs)
  case Nil
  then show ?case by simp
next
  case (Cons x xs)
  then show ?case
    by (auto simp: find_None_key image_iff)
qed

lemma tasks_id_delete_consistent:
  assumes ok: "consistent s"
  shows "consistent (snd (tasks_id_delete tid s))"
proof (cases "Task_findById tid s")
  case None
  with ok show ?thesis
    by (simp add: tasks_id_delete_def)
next
  case (Some t)
  define a where "a = assignedUser t"
  define s1 where "s1 = (if a \<noteq> []
                    then normalizePendingTasksForUser a
                           (User_updateOne a (pull_pendingTasks tid) s)
                    else s)"
  have tid: "t_id t = tid"
    using Some by (rule Task_findById_id)
  have s': "snd (tasks_id_delete tid s) = Task_deleteOne tid s1"
    using Some tid by (simp add: tasks_id_delete_def Let_def s1_def a_def)
  from ok have du: "distinct (map u_id (users s))" and dt: "distinct (map t_id (tasks s))"
    and step: "in_step (pending_of s) (state_of s)"
    by (simp_all add: consistent_iff)
  have T: "state_of s tid = Some (completed t, a)"
    using Some by (simp add: state_of_def a_def)
  have ts1: "tasks s1 = tasks s" and us1: "map u_id (users s1) = map u_id (users s)"
    by (simp_all add: s1_def store_simps map_key_update_first)
  have T': "state_of (Task_deleteOne tid s1) = (state_of s)(tid := None)"
    using dt
    by (auto simp: fun_eq_iff state_of_def Task_findById_def store_simps ts1
        find_delete_first_same find_delete_first_other)
  have P': "pending_of (Task_deleteOne tid s1) i =
              (if i = a \<and> a \<noteq> []
               then map_option (\<lambda>p. dedup_first_occurrence (removeAll tid p)) (pending_of s i)
               else pending_of s i)" for i
    by (cases "User_findById i s")
      (auto simp: pending_of_def s1_def store_simps pull_pendingTasks_def)
  have some: "\<exists>p'. pending_of (Task_deleteOne tid s1) i = Some p' \<and> distinct p'
                \<and> set p' = set p - {tid}"
    if p: "pending_of s i = Some p" for i p
  proof -
    from step p have i: "i \<noteq> []" and dp: "distinct p"
      and held: "\<forall>x \<in> set p. state_of s x = Some (False, i)"
      unfolding in_step_def by blast+
    from held T have "tid \<in> set p \<Longrightarrow> i = a"
      by auto
    with p dp i show ?thesis
      by (auto simp: P')
  qed
  have none: "pending_of s i = None \<Longrightarrow> pending_of (Task_deleteOne tid s1) i = None" for i
    by (auto simp: P')
  from in_step_task_gone [OF step T' none some]
  have "in_step (pending_of (Task_deleteOne tid s1)) (state_of (Task_deleteOne tid s1))" .
  moreover have "distinct (map t_id (tasks (Task_deleteOne tid s1)))"
    using dt by (simp add: store_simps ts1 distinct_delete_first)
  moreover have "distinct (map u_id (users (Task_deleteOne tid s1)))"
    using du by (simp add: store_simps us1)
  ultimately show ?thesis
    by (simp add: consistent_iff s')
qed

lemma users_post_consistent:
  assumes ok: "consistent s" and ne: "new_id \<noteq> []"
  shows "consistent (snd (users_post new_id body s))"
proof -
  define doc where "doc = \<lparr>u_id = new_id, u_name = the (ub_name body),
                            email = the (ub_email body), pendingTasks = []\<rparr>"
  show ?thesis
  proof (cases "snd (users_post new_id body s) = s")
    case True
    with ok show ?thesis by simp
  next
    case False
    then have save: "snd (users_post new_id body s) = snd (users_post_save doc s)"
      by (auto simp: users_post_def doc_def split: if_splits)
    with False obtain s1 where ins: "User_insert doc s = Inr s1"
      and s': "snd (users_post new_id body s) = normalizePendingTasksForUser new_id s1"
      by (cases "User_insert doc s") (auto simp: users_post_save_def doc_def)
    from ins have fresh: "new_id \<notin> u_id ` set (users s)"
      and s1: "s1 = s\<lparr>users := users s @ [doc], writes := writes s @ [UserSave (u_id doc)]\<rparr>"
      by (auto simp: User_insert_def doc_def split: if_splits)
    from ok have du: "distinct (map u_id (users s))" and dt: "distinct (map t_id (tasks s))"
      and step: "in_step (pending_of s) (state_of s)"
      by (simp_all add: consistent_iff)
    from fresh have P: "pending_of s new_id = None"
      by (simp add: pending_of_def User_findById_def find_None_key)
    have f1: "User_findById i s1 =
                (case User_findById i s of Some u \<Rightarrow> Some u
                 | None \<Rightarrow> if i = new_id then Some doc else None)" for i
      by (auto simp: User_findById_def s1 find_append doc_def split: option.splits)
    have P': "pending_of (normalizePendingTasksForUser new_id s1) = (pending_of s)(new_id \<mapsto> [])"
      using P
      by (auto simp: fun_eq_iff pending_of_def store_simps f1 doc_def split: option.splits)
    have T': "state_of (normalizePendingTasksForUser new_id s1) = state_of s"
      by (simp add: fun_eq_iff state_of_def store_simps Task_findById_def s1)
    from in_step_user_new [OF step P ne P']
    have "in_step (pending_of (normalizePendingTasksForUser new_id s1))
            (state_of (normalizePendingTasksForUser new_id s1))"
      by (simp add: T')
    moreover have "map u_id (users (normalizePendingTasksForUser new_id s1)) =
                     map u_id (users s) @ [new_id]"
      by (simp add: store_simps map_key_update_first s1 doc_def)
    moreover have "tasks (normalizePendingTasksForUser new_id s1) = tasks s"
      by (simp add: store_simps s1)
    ultimately show ?thesis
      using du dt fresh by (simp add: consistent_iff s')
  qed
qed

lemma users_id_delete_consistent:
  assumes ok: "consistent s"
  shows "consistent (snd (users_id_delete rid s))"
proof (cases "User_findById rid s")
  case None
  with ok show ?thesis
    by (simp add: users_id_delete_def)
next
  case (Some u)
  define p where "p = pendingTasks u"
  define s1 where "s1 = (if p \<noteq> []
                    then Task_updateMany (\<lambda>t. t_id t \<in> set p) unassign s
                    else s)"
  have s': "snd (users_id_delete rid s) = User_deleteOne rid s1"
    using Some by (simp add: users_id_delete_def Let_def s1_def p_def)
  from ok have du: "distinct (map u_id (users s))" and dt: "distinct (map t_id (tasks s))"
    and step: "in_step (pending_of s) (state_of s)"
    by (simp_all add: consistent_iff)
  have P: "pending_of s rid = Some p"
    using Some by (simp add: pending_of_def p_def)
  have us1: "users s1 = users s"
    and ts1: "tasks s1 = map (\<lambda>t. if t_id t \<in> set p then unassign t else t) (tasks s)"
    by (cases "p = []"; simp add: s1_def store_simps)+
  have P': "pending_of (User_deleteOne rid s1) = (pending_of s)(rid := None)"
    using du
    by (auto simp: fun_eq_iff pending_of_def User_findById_def store_simps us1
        find_delete_first_same find_delete_first_other)
  have T': "state_of (User_deleteOne rid s1) x =
              map_option (\<lambda>(c, a). if x \<in> set p then (c, []) else (c, a)) (state_of s x)" for x
  proof -
    have "Task_findById x (User_deleteOne rid s1) =
            map_option (\<lambda>t. if t_id t \<in> set p then unassign t else t) (Task_findById x s)"
      by (simp add: Task_findById_def store_simps ts1 find_map_if unassign_def)
    moreover have "Task_findById x s = Some t \<Longrightarrow> t_id t = x" for t
      by (rule Task_findById_id)
    ultimately show ?thesis
      by (cases "Task_findById x s") (auto simp: state_of_def unassign_def)
  qed
  from in_step_user_gone [OF step P P' T']
  have "in_step (pending_of (User_deleteOne rid s1)) (state_of (User_deleteOne rid s1))" .
  moreover have "distinct (map u_id (users (User_deleteOne rid s1)))"
    using du by (simp add: store_simps us1 distinct_delete_first)
  moreover have "map t_id (tasks (User_deleteOne rid s1)) = map t_id (tasks s)"
    by (simp add: store_simps ts1 unassign_def comp_def)
  ultimately show ?thesis
    using dt by (simp add: consistent_iff s')
qed

lemma find_map_key:
  assumes "\<And>x. key (g x) = key x"
  shows "find (\<lambda>x. key x = j) (map g xs) = map_option g (find (\<lambda>x. key x = j) xs)"
  using assms by (induction xs) auto

lemma users_id_put_consistent:
  assumes ok: "consistent s"
    and upd: "users_id_put rid body s = (Response 200 msg d, s')"
  shows "consistent s'"
proof -
  from users_id_put_200 [OF upd] obtain stored s1 L where
    stored: "User_findById rid s = Some stored"
    and L: "requested_pending (ub_pendingTasks body) = Some L"
    and all_found: "\<forall>x \<in> set L. x \<in> t_id ` set (tasks s)"
    and none_completed: "\<forall>t \<in> set (tasks s). t_id t \<in> set L \<longrightarrow> \<not> completed t"
    and save: "User_save (stored\<lparr>u_name := the (ub_name body), email := the (ub_email body),
                          pendingTasks := L\<rparr>) s = Inr s1"
    and s': "s' = snd (users_put_cascade (pendingTasks stored)
                        (stored\<lparr>u_name := the (ub_name body), email := the (ub_email body),
                           pendingTasks := L\<rparr>) s1)"
    by blast
  define user where "user = stored\<lparr>u_name := the (ub_name body), email := the (ub_email body),
                          pendingTasks := L\<rparr>"
  define prev where "prev = pendingTasks stored"
  define found where "found = Task_find_in (pendingTasks user) s1"
  define inc where "inc = map t_id (filter (\<lambda>t. \<not> completed t) found)"
  define removed where "removed = filter (\<lambda>t. t \<notin> set (pendingTasks user)) prev"
  note saved = users_id_put_saved [OF stored save, folded user_def]
  have pL: "pendingTasks user = L"
    by (simp add: user_def)
  have ts: "tasks s1 = tasks s"
    by (rule User_save_Inr(1) [OF save])
  note st = users_put_cascade_state [OF saved(1) found_def inc_def removed_def
      s' [folded user_def prev_def], unfolded saved(2)]
  from ok have du: "distinct (map u_id (users s))" and dt: "distinct (map t_id (tasks s))"
    and step: "in_step (pending_of s) (state_of s)"
    by (simp_all add: consistent_iff)
  note T = Task_findById_iff [OF dt]
  have found': "found = filter (\<lambda>t. t_id t \<in> set L) (tasks s)"
    by (simp add: found_def Task_find_in_def pL ts)
  have "filter (\<lambda>t. \<not> completed t) found = found"
    unfolding found' using none_completed by (intro filter_True) auto
  then have inc': "inc = map t_id found"
    by (simp add: inc_def)
  have set_inc: "set inc = set L"
    using all_found by (auto simp: inc' found')
  have set_removed: "set removed = set prev - set L"
    by (auto simp: removed_def pL)
  have P: "pending_of s rid = Some prev"
    by (simp add: pending_of_def stored prev_def)
  have dL: "distinct L"
    by (rule requested_pending_distinct [OF L])
  have Lst: "\<forall>x \<in> set L. \<exists>a. state_of s x = Some (False, a)"
  proof
    fix x
    assume x: "x \<in> set L"
    with all_found obtain t where t: "t \<in> set (tasks s)" "t_id t = x"
      by auto
    with none_completed x have "\<not> completed t"
      by auto
    with t show "\<exists>a. state_of s x = Some (False, a)"
      by (auto simp: state_of_def T)
  qed
  define F where "F = (\<lambda>t.
      (\<lambda>t. if assignedUser t = rid then t\<lparr>assignedUserName := u_name user\<rparr> else t)
        ((\<lambda>t. if t_id t \<in> set removed \<and> \<not> completed t then unassign t else t)
          ((\<lambda>t. if t_id t \<in> set inc
                then t\<lparr>assignedUser := rid, assignedUserName := u_name user\<rparr> else t) t)))"
  have tF: "tasks s' = map F (tasks s)"
    by (simp add: st(1) ts F_def comp_def)
  have idF: "t_id (F t) = t_id t" for t
    by (simp add: F_def unassign_def)
  have fF: "Task_findById x s' = map_option F (Task_findById x s)" for x
    unfolding Task_findById_def tF by (rule find_map_key) (rule idF)
  have T': "state_of s' x =
              map_option (\<lambda>(c, a). if x \<in> set L then (c, rid)
                                   else if x \<in> set prev \<and> \<not> c then (c, [])
                                   else (c, a)) (state_of s x)" for x
  proof (cases "Task_findById x s")
    case None
    then show ?thesis
      by (simp add: state_of_def fF)
  next
    case (Some t)
    then have id: "t_id t = x"
      by (rule Task_findById_id)
    with Some show ?thesis
      by (simp add: state_of_def fF F_def set_inc set_removed unassign_def)
  qed
  have own: "\<exists>p. pending_of s' rid = Some p \<and> distinct p \<and> set p = set L"
    using st(2) [of rid] by (simp add: pending_of_def set_inc)
  have f1: "User_findById i s1 = User_findById i s" if "i \<noteq> rid" for i
    using User_save_Inr(3) [OF save, of i] that saved(2) by (simp add: user_def)
  have none: "pending_of s' i = None" if "pending_of s i = None" for i
  proof -
    from that P have ir: "i \<noteq> rid"
      by auto
    from that have "User_findById i s = None"
      by (simp add: pending_of_def)
    with ir have "User_findById i s1 = None"
      by (simp add: f1)
    from release_from_previous_None [OF this] ir show ?thesis
      by (simp add: pending_of_def st(2))
  qed
  have some: "\<exists>p'. pending_of s' i = Some p' \<and> distinct p'
                    \<and> set p' = set p - {x \<in> set L. state_of s x = Some (False, i)}"
    if ir: "i \<noteq> rid" and p: "pending_of s i = Some p" for i p
  proof -
    from p obtain u where u: "User_findById i s = Some u" "pendingTasks u = p"
      by (auto simp: pending_of_def)
    from step p have i: "i \<noteq> []" and dp: "distinct p"
      unfolding in_step_def by blast+
    from u ir have "User_findById i s1 = Some u"
      by (simp add: f1)
    from release_from_previous_user [OF this, of rid found] obtain p' where
      p': "User_findById i (release_from_previous rid found s1) = Some (u\<lparr>pendingTasks := p'\<rparr>)"
        "set p' = set (pendingTasks u) -
             {x. \<exists>t \<in> set found. t_id t = x \<and> \<not> completed t \<and> assignedUser t = i \<and> i \<noteq> rid \<and> i \<noteq> []}"
        "distinct (pendingTasks u) \<longrightarrow> distinct p'"
      by blast
    have "{x. \<exists>t \<in> set found. t_id t = x \<and> \<not> completed t \<and> assignedUser t = i \<and> i \<noteq> rid \<and> i \<noteq> []} =
          {x \<in> set L. state_of s x = Some (False, i)}"
      using ir i by (auto simp: found' state_of_def T)
    with p' u dp ir show ?thesis
      by (simp add: pending_of_def st(2))
  qed
  have "in_step (pending_of s') (state_of s')"
  proof (rule in_step_user_put [where P = "pending_of s" and T = "state_of s" and rid = rid
        and prev = prev and L = "set L"])
    show "in_step (pending_of s) (state_of s)"
      by (rule step)
    show "pending_of s rid = Some prev"
      by (rule P)
    show "\<forall>x \<in> set L. \<exists>a. state_of s x = Some (False, a)"
      by (rule Lst)
    show "state_of s' x =
            map_option (\<lambda>(c, a). if x \<in> set L then (c, rid)
                                 else if x \<in> set prev \<and> \<not> c then (c, [])
                                 else (c, a)) (state_of s x)" for x
      by (rule T')
    show "\<exists>p. pending_of s' rid = Some p \<and> distinct p \<and> set p = set L"
      by (rule own)
    show "pending_of s' i = None" if "pending_of s i = None" for i
      using that by (rule none)
    show "\<exists>p'. pending_of s' i = Some p' \<and> distinct p'
                    \<and> set p' = set p - {x \<in> set L. state_of s x = Some (False, i)}"
      if "i \<noteq> rid" "pending_of s i = Some p" for i p
      using that by (rule some)
  qed
  moreover have "map u_id (users s') = map u_id (users s)"
  proof -
    have "users s1 = update_first (\<lambda>u. u_id u = u_id user) (\<lambda>u. user) (users s)"
      by (rule User_save_Inr(2) [OF save, folded user_def])
    then have "map u_id (users s1) = map u_id (users s)"
      by (simp only: map_key_replace_first)
    with st(3) show ?thesis
      by simp
  qed
  moreover have "map t_id (tasks s') = map t_id (tasks s)"
    by (simp add: tF idF comp_def)
  ultimately show ?thesis
    using du dt unfolding consistent_iff [of s'] by simp
qed

subsection \<open>A request that does not succeed leaves the store as it was\<close>

lemma tasks_post_save_outcome:
  "snd (tasks_post_save task s) = s
   \<or> (\<exists>msg d. tasks_post_save task s = (Response 201 msg d, snd (tasks_post_save task s)))"
  by (cases "Task_insert task s") (simp_all add: tasks_post_save_def sendResponse_def)

lemma tasks_post_outcome:
  "snd (tasks_post new_id body s) = s
   \<or> (\<exists>msg d. tasks_post new_id body s = (Response 201 msg d, snd (tasks_post new_id body s)))"
proof (cases "\<not> given (tb_name body) \<or> \<not> given (tb_deadline body)")
  case True
  then show ?thesis
    by (simp add: tasks_post_def)
next
  case False
  show ?thesis
  proof (cases "tasks_post_check body s")
    case (Inl r)
    with False show ?thesis
      by (simp add: tasks_post_def)
  next
    case (Inr nm)
    define task where "task = \<lparr>t_id = new_id, t_name = the (tb_name body),
                   description = or_else (tb_description body) [],
                   deadline = the (tb_deadline body),
                   completed = completed_flag (tb_completed body),
                   assignedUser = or_else (tb_assignedUser body) [],
                   assignedUserName = or_else nm ''unassigned''\<rparr>"
    from False Inr have "tasks_post new_id body s = tasks_post_save task s"
      by (simp add: tasks_post_def task_def)
    with tasks_post_save_outcome [of task s] show ?thesis
      by simp
  qed
qed

lemma tasks_put_cascade_outcome:
  "\<exists>msg d. tasks_put_cascade prev task s =
             (Response 200 msg d, snd (tasks_put_cascade prev task s))"
  by (simp add: prod_eq_iff tasks_put_cascade_fst)

lemma tasks_id_put_outcome:
  "snd (tasks_id_put tid body s) = s
   \<or> (\<exists>msg d. tasks_id_put tid body s = (Response 200 msg d, snd (tasks_id_put tid body s)))"
proof (cases "\<not> given (tb_name body) \<or> \<not> given (tb_deadline body)")
  case True
  then show ?thesis
    by (simp add: tasks_id_put_def)
next
  case g: False
  show ?thesis
  proof (cases "Task_findById tid s")
    case None
    with g show ?thesis
      by (simp add: tasks_id_put_def)
  next
    case (Some t)
    show ?thesis
    proof (cases "completed t")
      case True
      with g Some show ?thesis
        by (simp add: tasks_id_put_def)
    next
      case nc: False
      define task0 where "task0 = t\<lparr>t_name := the (tb_name body),
                            description := or_else (tb_description body) [],
                            deadline := the (tb_deadline body),
                            completed := completed_flag (tb_completed body)\<rparr>"
      have unfold: "tasks_id_put tid body s =
        (if given (tb_assignedUser body)
                  then (case User_findById (the (tb_assignedUser body)) s of
                          None \<Rightarrow>
                            (sendResponse 404 ''Assigned user not found''
                               (Missing [the (tb_assignedUser body)]), s)
                        | Some assignedUserDoc \<Rightarrow>
                            if tb_assignedUserName body \<noteq> None \<and>
                               toLowerCase (the (tb_assignedUserName body)) \<noteq> ''unassigned'' \<and>
                               the (tb_assignedUserName body) \<noteq> u_name assignedUserDoc
                            then (sendResponse 400
                                    ''assignedUserName does not match user record'' Empty, s)
                            else tasks_put_cascade (assignedUser t)
                                   (task0\<lparr>assignedUser := the (tb_assignedUser body),
                                         assignedUserName := u_name assignedUserDoc\<rparr>) s)
                  else tasks_put_cascade (assignedUser t)
                         (task0\<lparr>assignedUser := [], assignedUserName := ''unassigned''\<rparr>) s)"
        using g Some nc by (simp add: tasks_id_put_def Let_def task0_def split: option.split)
      show ?thesis
      proof (cases "given (tb_assignedUser body)")
        case False
        with tasks_put_cascade_outcome
          [of "assignedUser t" "task0\<lparr>assignedUser := [], assignedUserName := ''unassigned''\<rparr>" s]
        show ?thesis
          by (simp only: unfold if_False) blast
      next
        case True
        show ?thesis
        proof (cases "User_findById (the (tb_assignedUser body)) s")
          case None
          with True show ?thesis
            by (simp add: unfold)
        next
          case (Some doc)
          show ?thesis
          proof (cases "tb_assignedUserName body \<noteq> None \<and>
                               toLowerCase (the (tb_assignedUserName body)) \<noteq> ''unassigned'' \<and>
                               the (tb_assignedUserName body) \<noteq> u_name doc")
            case True
            with \<open>given (tb_assignedUser body)\<close> Some show ?thesis
              by (simp add: unfold)
          next
            case False
            with \<open>given (tb_assignedUser body)\<close> Some have
              "tasks_id_put tid body s =
                 tasks_put_cascade (assignedUser t)
                   (task0\<lparr>assignedUser := the (tb_assignedUser body),
                         assignedUserName := u_name doc\<rparr>) s"
              by (auto simp: unfold)
            with tasks_put_cascade_outcome
              [of "assignedUser t" "task0\<lparr>assignedUser := the (tb_assignedUser body),
                         assignedUserName := u_name doc\<rparr>" s]
            show ?thesis
              by simp
          qed
        qed
      qed
    qed
  qed
qed

lemma users_put_save_outcome:
  "snd (users_put_save prev user s) = s
   \<or> (\<exists>msg d. users_put_save prev user s = (Response 200 msg d, snd (users_put_save prev user s)))"
  by (cases "User_save user s")
    (simp_all add: users_put_save_def prod_eq_iff users_put_cascade_fst)

lemma users_id_put_outcome:
  "snd (users_id_put rid body s) = s
   \<or> (\<exists>msg d. users_id_put rid body s = (Response 200 msg d, snd (users_id_put rid body s)))"
proof (cases "given (ub_name body) \<and> given (ub_email body)
              \<and> emailContainsAt (the (ub_email body))")
  case False
  then show ?thesis
    by (auto simp: users_id_put_def)
next
  case g: True
  show ?thesis
  proof (cases "User_findById rid s")
    case None
    with g show ?thesis
      by (simp add: users_id_put_def)
  next
    case (Some stored)
    show ?thesis
    proof (cases "requested_pending (ub_pendingTasks body)")
      case None
      from users_id_put_thrown(1) [OF None] show ?thesis
        by simp
    next
      case L: (Some L)
      define user where "user = stored\<lparr>u_name := the (ub_name body), email := the (ub_email body),
                            pendingTasks := L\<rparr>"
      from g have g': "given (ub_name body)" "given (ub_email body)"
        "emailContainsAt (the (ub_email body))"
        by simp_all
      note unfold = users_id_put_unfold [OF g' Some L, folded user_def]
      show ?thesis
      proof (cases "users_put_check user s")
        case (Some r)
        then show ?thesis
          by (simp add: unfold)
      next
        case None
        with users_put_save_outcome [of "pendingTasks stored" user s] show ?thesis
          by (simp add: unfold)
      qed
    qed
  qed
qed

subsection \<open>The pending lists after one request\<close>




end
